theory Spec2Isabelle
  imports Main "HOL-Library.Word" "HOL-Library.Sublist"
begin

unbundle bit_operations_syntax

section \<open>SD card over SPI: the protocol engine of \<open>src/sdcard_spi.c\<close>\<close>

type_synonym u8 = "8 word"
type_synonym u16 = "16 word"
type_synonym u32 = "32 word"

subsection \<open>Constants\<close>

definition CRC7_POLY :: u8 where "CRC7_POLY = 0x12"
definition CRC16_POLY :: u16 where "CRC16_POLY = 0x1021"
definition SPI_INIT_RATE :: nat where "SPI_INIT_RATE = 400000"
definition SPI_XFER_RATE :: nat where "SPI_XFER_RATE = 4000000"

text \<open>The flag enums of lines 30-36.\<close>

definition SDF_INITIALIZED :: u8 where "SDF_INITIALIZED = 1"
definition SDF_HIGH_CAPACITY :: u8 where "SDF_HIGH_CAPACITY = 2"
definition SDF_WRITE_PROTECTED :: u8 where "SDF_WRITE_PROTECTED = 4"
definition SDF_DEINIT :: u8 where "SDF_DEINIT = 8"

definition SDE_NO_IDLE :: u8 where "SDE_NO_IDLE = 1"
definition SDE_IF_COND_ERR :: u8 where "SDE_IF_COND_ERR = 2"
definition SDE_CRC_ERR :: u8 where "SDE_CRC_ERR = 4"
definition SDE_OP_COND_ERR :: u8 where "SDE_OP_COND_ERR = 8"
definition SDE_OCR_ERR :: u8 where "SDE_OCR_ERR = 16"
definition SDE_READ_ERR :: u8 where "SDE_READ_ERR = 32"
definition SDE_WRITE_ERR :: u8 where "SDE_WRITE_ERR = 64"
definition SDE_OTHER_ERR :: u8 where "SDE_OTHER_ERR = 128"

definition CF_APP_CMD :: u8 where "CF_APP_CMD = 1"
definition CF_FULL_RESP :: u8 where "CF_FULL_RESP = 2"
definition CF_NOT_EXPECT :: u8 where "CF_NOT_EXPECT = 4"

text \<open>
  Modelled from the spec: the header \<open>sdcard.h\<close> with the command codes and the sector
  size is not among the sources. The spec fixes the sector at 512 bytes and the go-idle
  frame at \<open>[0x40,0,0,0,0]\<close>, so go-idle is code 0; the other codes are named by the spec
  ("bit-exact, must match the SD SPI-mode specification") and carry the numbers of that
  command set.
\<close>

definition SD_SECTOR_SIZE :: u32 where "SD_SECTOR_SIZE = 512"
definition SDCMD_GO_IDLE_STATE :: u8 where "SDCMD_GO_IDLE_STATE = 0"
definition SDCMD_SEND_IF_COND :: u8 where "SDCMD_SEND_IF_COND = 8"
definition SDCMD_SEND_CSD :: u8 where "SDCMD_SEND_CSD = 9"
definition SDCMD_SET_BLOCKLEN :: u8 where "SDCMD_SET_BLOCKLEN = 16"
definition SDCMD_READ_SINGLE_BLOCK :: u8 where "SDCMD_READ_SINGLE_BLOCK = 17"
definition SDCMD_WRITE_BLOCK :: u8 where "SDCMD_WRITE_BLOCK = 24"
definition SDCMD_SEND_OP_COND :: u8 where "SDCMD_SEND_OP_COND = 41"
definition SDCMD_APP_CMD :: u8 where "SDCMD_APP_CMD = 55"
definition SDCMD_READ_OCR :: u8 where "SDCMD_READ_OCR = 58"
definition SDCMD_CRC_ON_OFF :: u8 where "SDCMD_CRC_ON_OFF = 59"

subsection \<open>CRC helper methods (lines 45-77)\<close>

text \<open>
  The inner \<open>for\<close> loop of \<open>calc_crc7\<close>: \<open>n\<close> rounds of shifting the register left,
  folding the polynomial in when the top bit was set. The C expression is computed in
  \<open>int\<close> and truncated by the assignment to \<open>uint8_t\<close>, which is the 8-bit shift.
\<close>

fun crc7_bits :: "nat \<Rightarrow> u8 \<Rightarrow> u8" where
  "crc7_bits 0 crc = crc"
| "crc7_bits (Suc n) crc =
     crc7_bits n (if crc AND 0x80 \<noteq> 0 then push_bit 1 crc XOR CRC7_POLY
                  else push_bit 1 crc)"

text \<open>
  The outer \<open>while (length--)\<close> loop, over the bytes at \<open>data\<close> (\<open>len\<close> is the C parameter \<open>length\<close>). Reading past the end
  of the buffer is undefined in C; every caller passes a buffer of at least \<open>length\<close>
  bytes, and the model reads the bytes that are there.
\<close>

fun crc7_loop :: "u8 list \<Rightarrow> u8 \<Rightarrow> u8" where
  "crc7_loop [] crc = crc"
| "crc7_loop (d # data) crc = crc7_loop data (crc7_bits 8 (crc XOR d))"

definition calc_crc7 :: "u8 list \<Rightarrow> u16 \<Rightarrow> u8" where
  "calc_crc7 data len = crc7_loop (take (unat len) data) 0 OR 1"

fun crc16_bits :: "nat \<Rightarrow> u16 \<Rightarrow> u16" where
  "crc16_bits 0 crc = crc"
| "crc16_bits (Suc n) crc =
     crc16_bits n (if crc AND 0x8000 \<noteq> 0 then push_bit 1 crc XOR CRC16_POLY
                   else push_bit 1 crc)"

fun crc16_loop :: "u8 list \<Rightarrow> u16 \<Rightarrow> u16" where
  "crc16_loop [] crc = crc"
| "crc16_loop (d # data) crc =
     crc16_loop data (crc16_bits 8 (crc XOR push_bit 8 (ucast d)))"

definition calc_crc16 :: "u8 list \<Rightarrow> u16 \<Rightarrow> u16" where
  "calc_crc16 data len = crc16_loop (take (unat len) data) 0"

subsection \<open>Command framing (lines 84-94)\<close>

text \<open>
  \<open>populate_buffer\<close> writes the six bytes of a command frame at the start of \<open>buf\<close>
  and leaves the rest of the buffer as it was. The buffers it is given hold eight bytes.
\<close>

definition populate_buffer :: "u8 \<Rightarrow> u32 \<Rightarrow> u8 list \<Rightarrow> u8 list" where
  "populate_buffer command arg buf =
     (let buf = buf[0 := command OR 0x40];
          buf = buf[1 := ucast (drop_bit 24 arg AND 0xFF)];
          buf = buf[2 := ucast (drop_bit 16 arg AND 0xFF)];
          buf = buf[3 := ucast (drop_bit 8 arg AND 0xFF)];
          buf = buf[4 := ucast (arg AND 0xFF)];
          crc = calc_crc7 buf 5
      in buf[5 := crc])"

subsection \<open>Driver state and the hardware it talks to\<close>

text \<open>
  What the driver does to the hardware, in the order it does it: bus preparation, writes
  to the chip-select pin (\<open>False\<close> is level 0, selected; \<open>True\<close> is level 1, released),
  transfers (with the \<open>receive_data\<close> flag and the bytes clocked out), delays in
  microseconds, and the set-up calls of \<open>sdcard_init\<close>.
\<close>

datatype hw_event =
    SpiPrepare
  | CsWrite bool
  | SpiTransfer bool "u8 list"
  | Udelay nat
  | GpioSetup bool
  | SpiSetup nat
  | SpiSetRate nat

text \<open>
  The static \<open>sd_spi\<close> struct (lines 23-28) holds \<open>config\<close>, \<open>cs_pin\<close>, \<open>flags\<close> and
  \<open>err\<close>; \<open>config\<close> is kept as the bus rate it was set up with and \<open>cs_pin\<close> as the
  level last written to the pin. The other fields are the collaborators the code calls:
  \<open>miso\<close> is the sequence of bytes the card shifts out, one for every byte clocked
  (\<open>clocked\<close> counts them); \<open>timer\<close> is the sequence of values \<open>timer_read_time\<close>
  returns (\<open>reads\<close> counts the calls); \<open>ticks_per_us\<close> is the timer frequency in MHz;
  \<open>trace\<close> records every hardware call. Any card and any timer, run against this
  deterministic driver, produce one such pair of sequences.
\<close>

record state =
  flags :: u8
  err :: u8
  config :: nat
  cs_pin :: bool
  miso :: "nat \<Rightarrow> u8"
  clocked :: nat
  timer :: "nat \<Rightarrow> u32"
  reads :: nat
  ticks_per_us :: u32
  trace :: "hw_event list"

text \<open>
  Modelled from the spec: the board layer (\<open>board/gpio.h\<close>, \<open>board/misc.h\<close>, \<open>sched.h\<close>)
  is declared in \<open>stm32/gpio.h\<close> but not implemented among the sources. Section 6 of the
  spec gives its contract: a synchronous full-duplex byte transfer that either transmits
  the buffer and discards what comes back or captures what comes back into the buffer,
  chip-select as a digital output, a bus rate selection, a monotonic time read and a
  microsecond delay.
\<close>

definition spi_prepare :: "state \<Rightarrow> state" where
  "spi_prepare s = s\<lparr>trace := trace s @ [SpiPrepare]\<rparr>"

definition gpio_out_write :: "bool \<Rightarrow> state \<Rightarrow> state" where
  "gpio_out_write v s = s\<lparr>cs_pin := v, trace := trace s @ [CsWrite v]\<rparr>"

definition spi_transfer :: "bool \<Rightarrow> nat \<Rightarrow> u8 list \<Rightarrow> state \<Rightarrow> u8 list \<times> state" where
  "spi_transfer receive_data len data s =
     (let recd = map (miso s) [clocked s ..< clocked s + len];
          s' = s\<lparr>clocked := clocked s + len,
                 trace := trace s @ [SpiTransfer receive_data (take len data)]\<rparr>
      in (if receive_data then recd @ drop len data else data, s'))"

definition udelay :: "nat \<Rightarrow> state \<Rightarrow> state" where
  "udelay us s = s\<lparr>trace := trace s @ [Udelay us]\<rparr>"

definition timer_read_time :: "state \<Rightarrow> u32 \<times> state" where
  "timer_read_time s = (timer s (reads s), s\<lparr>reads := reads s + 1\<rparr>)"

definition timer_from_us :: "u32 \<Rightarrow> state \<Rightarrow> u32" where
  "timer_from_us us s = us * ticks_per_us s"

definition timer_is_before :: "u32 \<Rightarrow> u32 \<Rightarrow> bool" where
  "timer_is_before time1 time2 = (sint (time1 - time2) < 0)"

text \<open>
  \<open>memset(buf, c, n)\<close> on a buffer of at least \<open>n\<close> bytes, which is how it is called.
\<close>

definition memset :: "u8 list \<Rightarrow> u8 \<Rightarrow> nat \<Rightarrow> u8 list" where
  "memset buf c n = replicate n c @ drop n buf"

subsection \<open>Command transport (lines 96-131)\<close>

text \<open>
  The loop of lines 113-128 over the eight polled bytes. At the first byte that is not
  0xFF it moves the \<open>8 - i\<close> bytes from there to the front (\<open>memmove\<close>) and, with
  \<open>CF_FULL_RESP\<close>, reads the missing \<open>i\<close> bytes into the tail of the buffer.
\<close>

function send_command_scan ::
  "nat \<Rightarrow> u8 \<Rightarrow> u8 list \<Rightarrow> u8 \<Rightarrow> state \<Rightarrow> u8 \<times> u8 list \<times> state" where
  "send_command_scan i ret buf cmd_flags s =
     (if i < 8 then
        (let ret = buf ! i in
         if ret \<noteq> 0xFF then
           (if i \<noteq> 0 then
              (let recd = 8 - i;
                   buf1 = take recd (drop i buf) @ drop recd buf
               in if cmd_flags AND CF_FULL_RESP \<noteq> 0 then
                    (let rem = 8 - recd;
                         buf2 = take recd buf1 @ memset (drop recd buf1) 0xFF rem;
                         (tl2, s1) = spi_transfer True rem (drop recd buf2) s
                     in (ret, take recd buf2 @ tl2, s1))
                  else (ret, buf1, s))
            else (ret, buf, s))
         else send_command_scan (i + 1) ret buf cmd_flags s)
      else (ret, buf, s))"
  by pat_completeness auto
termination
  by (relation "measure (\<lambda>(i, ret, buf, cmd_flags, s). 8 - i)") auto

declare send_command_scan.simps [simp del]

text \<open>
  \<open>ret\<close> is not initialised in the C function; the first round of the loop assigns it,
  so the value the scan starts with is never returned.
\<close>

definition send_command :: "u8 \<Rightarrow> u32 \<Rightarrow> u8 list \<Rightarrow> u8 \<Rightarrow> state \<Rightarrow> u8 \<times> u8 list \<times> state" where
  "send_command command arg buf cmd_flags s =
     (let s1 = spi_prepare s;
          s2 = gpio_out_write False s1;
          buf1 = memset buf 0 8;
          (buf2, s3) =
             (if cmd_flags AND CF_APP_CMD \<noteq> 0 then
                (let b1 = buf1[0 := SDCMD_APP_CMD OR 0x40];
                     crc = calc_crc7 b1 5;
                     b2 = b1[5 := crc]
                 in spi_transfer False 6 b2 s2)
              else (buf1, s2));
          buf3 = populate_buffer command arg buf2;
          (buf4, s4) = spi_transfer False 6 buf3 s3;
          buf5 = memset buf4 0xFF 8;
          (buf6, s5) = spi_transfer True 8 buf5 s4;
          (ret, buf7, s6) = send_command_scan 0 0 buf6 cmd_flags s5;
          s7 = gpio_out_write True s6
      in (ret, buf7, s7))"

subsection \<open>Retry policy (lines 133-150)\<close>

function check_command ::
  "u8 \<Rightarrow> u32 \<Rightarrow> u8 list \<Rightarrow> u8 \<Rightarrow> u8 \<Rightarrow> u8 \<Rightarrow> state \<Rightarrow> u8 \<times> u8 list \<times> state" where
  "check_command cmd arg buf fl expect attempts s =
     (if attempts \<noteq> 0 then
        (let (ret, buf1, s1) = send_command cmd arg buf fl s in
         if (if fl AND CF_NOT_EXPECT \<noteq> 0 then ret \<noteq> expect else ret = expect)
         then (1, buf1, s1)
         else (let attempts1 = attempts - 1;
                   s2 = (if attempts1 \<noteq> 0 then udelay 1000 s1 else s1)
               in check_command cmd arg buf1 fl expect attempts1 s2))
      else (0, buf, s))"
  by pat_completeness auto
termination
  by (relation "measure (\<lambda>(cmd, arg, buf, fl, expect, attempts, s). unat attempts)")
     (auto simp: unat_minus_one unat_gt_0)

declare check_command.simps [simp del]

subsection \<open>Token scanner (lines 152-166)\<close>

text \<open>
  The loop polls one byte at a time until the token comes back or the timer says the
  deadline has passed. Nothing in the code bounds the number of rounds: with a timer
  that stands still and a card that never sends the token it does not return, and the
  model then gives \<open>None\<close>.
\<close>

partial_function (option) find_token_loop :: "u8 \<Rightarrow> u32 \<Rightarrow> state \<Rightarrow> (u8 \<times> state) option" where
  "find_token_loop token endtime s =
     (case timer_read_time s of (now, s1) \<Rightarrow>
        if timer_is_before now endtime then
          (case spi_transfer True 1 [0xFF] s1 of (buf, s2) \<Rightarrow>
             if buf ! 0 = token then Some (1, s2)
             else find_token_loop token endtime s2)
        else Some (0, s1))"

definition find_token :: "u8 \<Rightarrow> u32 \<Rightarrow> state \<Rightarrow> (u8 \<times> state) option" where
  "find_token token timeout_us s =
     (let (t0, s1) = timer_read_time s;
          endtime = t0 + timer_from_us timeout_us s1
      in find_token_loop token endtime s1)"

subsection \<open>Block transfer engine: writing a sector (lines 168-227)\<close>

text \<open>
  The two \<open>for\<close> loops of lines 185-189 and 208-213: \<open>ret\<close> becomes each of the
  eight bytes in turn and the loop stops at the first that is not 0xFF.
\<close>

function resp_scan :: "nat \<Rightarrow> u8 \<Rightarrow> u8 list \<Rightarrow> u8" where
  "resp_scan i ret cmd_buf =
     (if i < 8 then
        (let ret = cmd_buf ! i in
         if ret \<noteq> 0xFF then ret else resp_scan (i + 1) ret cmd_buf)
      else ret)"
  by pat_completeness auto
termination
  by (relation "measure (\<lambda>(i, ret, cmd_buf). 8 - i)") auto

declare resp_scan.simps [simp del]

text \<open>
  Lines 173-189: the address translation, the CRC16 of the payload, the command frame
  and the scan for its response. \<open>cmd_buf\<close> is a local array that is not initialised;
  \<open>populate_buffer\<close> writes its first six bytes and only those are sent before the
  \<open>memset\<close>. The result is the response byte, the CRC16, the command buffer and the
  state.
\<close>

definition write_sector_command ::
  "u8 list \<Rightarrow> u32 \<Rightarrow> state \<Rightarrow> u8 \<times> u16 \<times> u8 list \<times> state" where
  "write_sector_command buf sector s =
     (let offset = (if flags s AND SDF_HIGH_CAPACITY = 0 then sector * SD_SECTOR_SIZE
                    else sector);
          crc = calc_crc16 buf (ucast SD_SECTOR_SIZE);
          cmd_buf = populate_buffer SDCMD_WRITE_BLOCK offset (replicate 8 0);
          s1 = spi_prepare s;
          s2 = gpio_out_write False s1;
          (cmd_buf1, s3) = spi_transfer False 6 cmd_buf s2;
          cmd_buf2 = memset cmd_buf1 0xFF 8;
          (cmd_buf3, s4) = spi_transfer True 8 cmd_buf2 s3;
          ret = resp_scan 0 1 cmd_buf3
      in (ret, crc, cmd_buf3, s4))"

text \<open>
  Lines 195-213: the start marker, the payload, the CRC16 and the scan for the data
  response token. The result is the token (0xFF when all eight bytes were 0xFF).
\<close>

definition write_sector_data :: "u8 list \<Rightarrow> u16 \<Rightarrow> u8 list \<Rightarrow> u8 \<Rightarrow> state \<Rightarrow> u8 \<times> state" where
  "write_sector_data buf crc cmd_buf ret s =
     (let cmd_buf1 = cmd_buf[0 := 0xFE];
          (cmd_buf2, s1) = spi_transfer False 1 cmd_buf1 s;
          (buf1, s2) = spi_transfer False (unat SD_SECTOR_SIZE) buf s1;
          cmd_buf3 = cmd_buf2[0 := ucast (drop_bit 8 crc AND 0xFF)];
          cmd_buf4 = cmd_buf3[1 := ucast (crc AND 0xFF)];
          (cmd_buf5, s3) = spi_transfer False 2 cmd_buf4 s2;
          cmd_buf6 = memset cmd_buf5 0xFF 8;
          (cmd_buf7, s4) = spi_transfer True 8 cmd_buf6 s3
      in (resp_scan 0 ret cmd_buf7, s4))"

text \<open>
  The whole function. \<open>return -1\<close> from a function returning \<open>uint8_t\<close> is 0xFF.
\<close>

definition sdcard_write_sector :: "u8 list \<Rightarrow> u32 \<Rightarrow> state \<Rightarrow> (u8 \<times> state) option" where
  "sdcard_write_sector buf sector s =
     (if flags s AND SDF_INITIALIZED = 0 then Some (- 1, s)
      else
        (let (ret, crc, cmd_buf, s1) = write_sector_command buf sector s in
         if ret = 0xFF then
           (let s2 = gpio_out_write True s1
            in Some (0, s2\<lparr>err := err s2 OR SDE_WRITE_ERR\<rparr>))
         else
           (let (tok, s2) = write_sector_data buf crc cmd_buf ret s1;
                ret1 = (if tok AND 0x1F = 5 then 0 else 2 :: u8)
            in case find_token 0xFF 50000 s2 of
                 None \<Rightarrow> None
               | Some (found, s3) \<Rightarrow>
                   (let ret2 = (if found = 0 then ret1 + 1 else ret1);
                        s4 = gpio_out_write True s3
                    in if ret2 > 0 then Some (0, s4\<lparr>err := err s4 OR SDE_WRITE_ERR\<rparr>)
                       else Some (1, s4)))))"

subsection \<open>Block transfer engine: reading a block (lines 229-289)\<close>

text \<open>The loop of lines 239-245: up to 16 single-byte polls for a byte that is not 0xFF.\<close>

function read_poll :: "nat \<Rightarrow> u8 \<Rightarrow> u8 list \<Rightarrow> state \<Rightarrow> u8 \<times> u8 list \<times> state" where
  "read_poll i ret cmd_buf s =
     (if i < 16 then
        (let cmd_buf1 = cmd_buf[0 := 0xFF];
             (cmd_buf2, s1) = spi_transfer True 1 cmd_buf1 s;
             ret = cmd_buf2 ! 0
         in if ret \<noteq> 0xFF then (ret, cmd_buf2, s1)
            else read_poll (i + 1) ret cmd_buf2 s1)
      else (ret, cmd_buf, s))"
  by pat_completeness auto
termination
  by (relation "measure (\<lambda>(i, ret, cmd_buf, s). 16 - i)") auto

declare read_poll.simps [simp del]

text \<open>Lines 232-245: the command frame and the poll for its response.\<close>

definition read_block_command :: "u8 \<Rightarrow> u32 \<Rightarrow> state \<Rightarrow> u8 \<times> u8 list \<times> state" where
  "read_block_command cmd arg s =
     (let cmd_buf = populate_buffer cmd arg (replicate 8 0);
          s1 = spi_prepare s;
          s2 = gpio_out_write False s1;
          (cmd_buf1, s3) = spi_transfer False 6 cmd_buf s2
      in read_poll 0 0 cmd_buf1 s3)"

text \<open>
  Lines 257-261: the payload and the two CRC bytes are read whatever happened before.
  \<open>len\<close> is the C parameter \<open>length\<close>, a \<open>uint32_t\<close>; \<open>spi_transfer\<close> and
  \<open>calc_crc16\<close> take a \<open>uint16_t\<close>, so they get its low 16 bits.
\<close>

definition read_block_data ::
  "u8 list \<Rightarrow> u32 \<Rightarrow> u8 list \<Rightarrow> state \<Rightarrow> u8 list \<times> u8 list \<times> state" where
  "read_block_data buf len cmd_buf s =
     (let buf1 = memset buf 0xFF (unat len);
          (buf2, s1) = spi_transfer True (unat (ucast len :: u16)) buf1 s;
          cmd_buf1 = memset cmd_buf 0xFF 8;
          (cmd_buf2, s2) = spi_transfer True 2 cmd_buf1 s1
      in (buf2, cmd_buf2, s2))"

definition read_data_block ::
  "u8 \<Rightarrow> u32 \<Rightarrow> u8 list \<Rightarrow> u32 \<Rightarrow> state \<Rightarrow> (u8 \<times> u8 list \<times> state) option" where
  "read_data_block cmd arg buf len s =
     (let (ret, cmd_buf, s1) = read_block_command cmd arg s;
          ret1 = (if ret \<noteq> 0 then 1 else ret)
      in case find_token 0xFE 50000 s1 of
           None \<Rightarrow> None
         | Some (found, s2) \<Rightarrow>
             (let ret2 = (if found = 0 then 2 else ret1);
                  (buf1, cmd_buf1, s3) = read_block_data buf len cmd_buf s2
              in case find_token 0xFF 50000 s3 of
                   None \<Rightarrow> None
                 | Some (busy, s4) \<Rightarrow>
                     (let s5 = gpio_out_write True s4;
                          recd_crc = (push_bit 8 (ucast (cmd_buf1 ! 0)) OR ucast (cmd_buf1 ! 1) :: u16);
                          crc = calc_crc16 buf1 (ucast len);
                          (ret3, s6) = (if recd_crc \<noteq> crc
                                        then (3, s5\<lparr>err := err s5 OR SDE_CRC_ERR\<rparr>)
                                        else (ret2, s5))
                      in if ret3 > 0 then Some (0, buf1, s6\<lparr>err := err s6 OR SDE_READ_ERR\<rparr>)
                         else Some (1, buf1, s6))))"

definition sdcard_read_sector :: "u8 list \<Rightarrow> u32 \<Rightarrow> state \<Rightarrow> (u8 \<times> u8 list \<times> state) option" where
  "sdcard_read_sector buf sector s =
     (if flags s AND SDF_INITIALIZED = 0 then Some (- 1, buf, s)
      else
        (let offset = (if flags s AND SDF_HIGH_CAPACITY = 0 then sector * SD_SECTOR_SIZE
                       else sector)
         in read_data_block SDCMD_READ_SINGLE_BLOCK offset buf SD_SECTOR_SIZE s))"

subsection \<open>Initialisation (lines 291-391)\<close>

text \<open>
  \<open>csd_buf\<close> is a local array that is not initialised; \<open>read_data_block\<close> fills its
  16 bytes with 0xFF before anything reads them.
\<close>

definition sdcard_check_write_protect :: "state \<Rightarrow> (u8 \<times> state) option" where
  "sdcard_check_write_protect s =
     (case read_data_block SDCMD_SEND_CSD 0 (replicate 16 0) 16 s of
        None \<Rightarrow> None
      | Some (ret, csd_buf, s1) \<Rightarrow>
          if ret = 0 then Some (0, s1)
          else if csd_buf ! 14 AND 0x30 \<noteq> 0 then Some (0, s1)
          else Some (1, s1))"

text \<open>The loop of lines 317-319: \<open>n\<close> transfers of the eight filler bytes.\<close>

fun init_clocks :: "nat \<Rightarrow> u8 list \<Rightarrow> state \<Rightarrow> state" where
  "init_clocks 0 buf s = s"
| "init_clocks (Suc n) buf s = init_clocks n buf (snd (spi_transfer False 8 buf s))"

definition gpio_out_setup :: "bool \<Rightarrow> state \<Rightarrow> state" where
  "gpio_out_setup v s = s\<lparr>cs_pin := v, trace := trace s @ [GpioSetup v]\<rparr>"

definition spi_setup :: "nat \<Rightarrow> state \<Rightarrow> state" where
  "spi_setup r s = s\<lparr>config := r, trace := trace s @ [SpiSetup r]\<rparr>"

definition spi_set_rate :: "nat \<Rightarrow> state \<Rightarrow> state" where
  "spi_set_rate r s = s\<lparr>config := r, trace := trace s @ [SpiSetRate r]\<rparr>"

text \<open>
  Lines 309-383 of \<open>sdcard_init\<close>: every stage up to and including the block length.
  The result is 1 when all of them passed and 0, with the stage's error flag added, at
  the first that did not. \<open>sd_ver\<close> starts at 0 in the C code and the branch that leaves
  it 0 is the one that returns.
\<close>

definition sdcard_init_stages :: "state \<Rightarrow> u8 \<times> state" where
  "sdcard_init_stages s =
     (let s1 = gpio_out_setup True s;
          s2 = spi_setup SPI_INIT_RATE s1;
          s3 = udelay 1000 s2;
          s4 = spi_prepare s3;
          buf = memset (replicate 8 0) 0xFF 8;
          s5 = init_clocks 10 buf s4;
          (r1, buf1, s6) = check_command SDCMD_GO_IDLE_STATE 0 buf 0 1 50 s5
      in if r1 = 0 then (0, s6\<lparr>err := err s6 OR SDE_NO_IDLE\<rparr>)
      else
     (let (r2, buf2, s7) = check_command SDCMD_SEND_IF_COND 0x10A buf1
                              (CF_FULL_RESP OR CF_NOT_EXPECT) 0xFF 3 s6
      in if r2 = 0 then (0, s7\<lparr>err := err s7 OR SDE_IF_COND_ERR\<rparr>)
      else
     (let sd_ver = (if buf2 ! 0 AND 4 \<noteq> 0 then 1
                    else if buf2 ! 0 = 1 \<and> buf2 ! 3 = 1 \<and> buf2 ! 4 = 10 then 2
                    else 0 :: u8)
      in if sd_ver = 0 then (0, s7\<lparr>err := err s7 OR SDE_IF_COND_ERR\<rparr>)
      else
     (let (r3, buf3, s8) = check_command SDCMD_CRC_ON_OFF 1 buf2 0 1 3 s7
      in if r3 = 0 then (0, s8\<lparr>err := err s8 OR SDE_CRC_ERR\<rparr>)
      else
     (let (r4, buf4, s9) = check_command SDCMD_READ_OCR 0 buf3 CF_FULL_RESP 1 20 s8
      in if r4 = 0 then (0, s9\<lparr>err := err s9 OR SDE_OCR_ERR\<rparr>)
      else if buf4 ! 2 AND 0x30 \<noteq> 0x30 then (0, s9\<lparr>err := err s9 OR SDE_OCR_ERR\<rparr>)
      else
     (let (r5, buf5, s10) = check_command SDCMD_SEND_OP_COND
                               (if sd_ver = 1 then 0 else push_bit 30 1)
                               buf4 CF_APP_CMD 0 250 s9
      in if r5 = 0 then (0, s10\<lparr>err := err s10 OR SDE_OP_COND_ERR\<rparr>)
      else
     (let (r6, buf6, s11) =
            (if sd_ver = 2 then check_command SDCMD_READ_OCR 0 buf5 CF_FULL_RESP 0 5 s10
             else (1, buf5, s10))
      in if r6 = 0 then (0, s11\<lparr>err := err s11 OR SDE_OCR_ERR\<rparr>)
      else
     (let s12 = (if sd_ver = 2 \<and> buf6 ! 1 AND 0x40 \<noteq> 0
                 then s11\<lparr>flags := flags s11 OR SDF_HIGH_CAPACITY\<rparr> else s11);
          (r7, buf7, s13) = check_command SDCMD_SET_BLOCKLEN SD_SECTOR_SIZE buf6 0 0 3 s12
      in if r7 = 0 then (0, s13\<lparr>err := err s13 OR SDE_OTHER_ERR\<rparr>)
      else (1, s13)))))))))"

text \<open>Lines 384-390: the write-protect check, the flag and the transfer rate.\<close>

definition sdcard_init :: "state \<Rightarrow> (u8 \<times> state) option" where
  "sdcard_init s =
     (let (ok, s1) = sdcard_init_stages s in
      if ok = 0 then Some (0, s1)
      else case sdcard_check_write_protect s1 of
             None \<Rightarrow> None
           | Some (wp, s2) \<Rightarrow>
               if wp = 0 then Some (0, s2\<lparr>flags := flags s2 OR SDF_WRITE_PROTECTED\<rparr>)
               else Some (1, spi_set_rate SPI_XFER_RATE
                               (s2\<lparr>flags := flags s2 OR SDF_INITIALIZED\<rparr>)))"

subsection \<open>Deinitialisation (lines 393-403)\<close>

text \<open>\<open>buf\<close> is a local array that \<open>send_command\<close> clears before use.\<close>

definition sdcard_deinit :: "state \<Rightarrow> state" where
  "sdcard_deinit s =
     (if flags s AND SDF_DEINIT \<noteq> 0 then s
      else
        (let s1 = s\<lparr>flags := flags s OR SDF_DEINIT\<rparr>;
             (r1, buf1, s2) = send_command SDCMD_GO_IDLE_STATE 0 (replicate 8 0) 0 s1;
             (r2, buf2, s3) = send_command SDCMD_CRC_ON_OFF 0 buf1 0 s2
         in s3))"

subsection \<open>Notions used to state the properties\<close>

text \<open>
  A step that only talks to the hardware: the flags, the error set, the card and the
  timer are as before and the trace has only been extended.
\<close>

definition hw_step :: "state \<Rightarrow> state \<Rightarrow> bool" where
  "hw_step s s' \<longleftrightarrow>
     flags s' = flags s \<and> err s' = err s \<and> miso s' = miso s \<and> timer s' = timer s \<and>
     ticks_per_us s' = ticks_per_us s \<and> prefix (trace s) (trace s')"

text \<open>The hardware calls made between two states.\<close>

definition events_since :: "state \<Rightarrow> state \<Rightarrow> hw_event list" where
  "events_since s s' = drop (length (trace s)) (trace s')"

text \<open>
  The six bytes \<open>populate_buffer\<close> puts on the wire, and the argument a card reads
  back from bytes 1 to 4 of a frame, most significant byte first.
\<close>

definition command_frame :: "u8 \<Rightarrow> u32 \<Rightarrow> u8 list" where
  "command_frame cmd arg = take 6 (populate_buffer cmd arg (replicate 8 0))"


text \<open>The first byte of a list that is not the idle filler 0xFF, and 0xFF when all are.\<close>

definition first_non_idle :: "u8 list \<Rightarrow> u8" where
  "first_non_idle bytes = (case dropWhile (\<lambda>b. b = 0xFF) bytes of [] \<Rightarrow> 0xFF | b # _ \<Rightarrow> b)"

text \<open>
  The success test of \<open>check_command\<close>, and the buffer and state in which its attempt
  number \<open>k\<close> (counted from 0) starts when all attempts before it failed: each of those
  was one \<open>send_command\<close> followed by the delay of one millisecond.
\<close>

definition accepted :: "u8 \<Rightarrow> u8 \<Rightarrow> u8 \<Rightarrow> bool" where
  "accepted fl expect ret = (if fl AND CF_NOT_EXPECT \<noteq> 0 then ret \<noteq> expect else ret = expect)"

definition failed_attempt :: "u8 \<Rightarrow> u32 \<Rightarrow> u8 \<Rightarrow> u8 list \<times> state \<Rightarrow> u8 list \<times> state" where
  "failed_attempt cmd arg fl bs =
     (let (ret, buf1, s1) = send_command cmd arg (fst bs) fl (snd bs)
      in (buf1, udelay 1000 s1))"

definition attempt_start :: "u8 \<Rightarrow> u32 \<Rightarrow> u8 \<Rightarrow> nat \<Rightarrow> u8 list \<times> state \<Rightarrow> u8 list \<times> state" where
  "attempt_start cmd arg fl k bs = (failed_attempt cmd arg fl ^^ k) bs"

definition attempt_response :: "u8 \<Rightarrow> u32 \<Rightarrow> u8 \<Rightarrow> nat \<Rightarrow> u8 list \<times> state \<Rightarrow> u8" where
  "attempt_response cmd arg fl k bs =
     (let (buf, s) = attempt_start cmd arg fl k bs in fst (send_command cmd arg buf fl s))"




text \<open>
  A test bench: a driver that has never run, a card that sends the given bytes and then
  leaves the line idle, and a 1 MHz timer that advances 25 ms between two readings, so
  that a token scan gives up after its second poll.
\<close>

definition bench :: "u8 list \<Rightarrow> state" where
  "bench bytes =
     \<lparr>flags = 0, err = 0, config = 0, cs_pin = True,
      miso = (\<lambda>i. if i < length bytes then bytes ! i else 0xFF), clocked = 0,
      timer = (\<lambda>n. of_nat n * 25000), reads = 0, ticks_per_us = 1, trace = []\<rparr>"

text \<open>
  A bench with a card that answers every stage of the initialisation up to the block
  length (a version 1 card: it rejects the interface condition command), answers the
  request for the CSD register with 0 and the start token, and then sends the 16 bytes
  \<open>csd\<close> followed by the two trailer bytes.
\<close>

definition init_card :: "u8 list \<Rightarrow> u8 \<Rightarrow> u8 \<Rightarrow> state" where
  "init_card csd crc_hi crc_lo =
     (bench [])\<lparr>miso := (\<lambda>i.
        if i = 86 then 1 else if i = 100 then 5 else if i = 114 then 1
        else if i = 128 then 1 else if i = 148 then 0 else if i = 162 then 0
        else if i = 176 then 0 else if i = 177 then 0xFE
        else if 178 \<le> i \<and> i < 194 then csd ! (i - 178)
        else if i = 194 then crc_hi else if i = 195 then crc_lo else 0xFF)\<rparr>"

section \<open>Steps that only touch the hardware\<close>

lemma hw_step_refl [simp]: "hw_step s s"
  by (simp add: hw_step_def)

lemma hw_step_trans: "hw_step s t \<Longrightarrow> hw_step t u \<Longrightarrow> hw_step s u"
  by (auto simp: hw_step_def)

lemma hw_step_spi_prepare [simp]: "hw_step s t \<Longrightarrow> hw_step s (spi_prepare t)"
  by (simp add: hw_step_def spi_prepare_def)

lemma hw_step_gpio_out_write [simp]: "hw_step s t \<Longrightarrow> hw_step s (gpio_out_write v t)"
  by (simp add: hw_step_def gpio_out_write_def)

lemma hw_step_udelay [simp]: "hw_step s t \<Longrightarrow> hw_step s (udelay n t)"
  by (simp add: hw_step_def udelay_def)

lemma hw_step_spi_transfer [simp]:
  "hw_step s t \<Longrightarrow> hw_step s (snd (spi_transfer rx n d t))"
  by (simp add: hw_step_def spi_transfer_def Let_def)

lemma hw_step_timer_read_time [simp]:
  "hw_step s t \<Longrightarrow> hw_step s (snd (timer_read_time t))"
  by (simp add: hw_step_def timer_read_time_def)


lemma find_token_loop_step:
  assumes "find_token_loop token endtime s = Some y"
  shows "hw_step s (snd y) \<and> (fst y = 0 \<or> fst y = 1)"
proof (rule find_token_loop.raw_induct
    [where P = "\<lambda>token endtime s y. hw_step s (snd y) \<and> (fst y = 0 \<or> fst y = 1)",
      OF _ assms])
  fix f :: "u8 \<Rightarrow> u32 \<Rightarrow> state \<Rightarrow> (u8 \<times> state) option" and token endtime s y
  assume IH: "\<And>token endtime s y. f token endtime s = Some y
                \<Longrightarrow> hw_step s (snd y) \<and> (fst y = 0 \<or> fst y = 1)"
  assume body: "(case timer_read_time s of
      (now, s1) \<Rightarrow>
        if timer_is_before now endtime
        then case spi_transfer True 1 [255] s1 of
             (buf, s2) \<Rightarrow> if buf ! 0 = token then Some (1, s2) else f token endtime s2
        else Some (0, s1)) = Some y"
  let ?s1 = "snd (timer_read_time s)"
  let ?s2 = "snd (spi_transfer True 1 [255] ?s1)"
  have a: "hw_step s ?s1" and b: "hw_step s ?s2" by simp_all
  show "hw_step s (snd y) \<and> (fst y = 0 \<or> fst y = 1)"
  proof (cases "timer_is_before (fst (timer_read_time s)) endtime")
    case False
    with body have "y = (0, ?s1)" by (simp add: case_prod_beta)
    with a show ?thesis by simp
  next
    case True
    note tb = this
    show ?thesis
    proof (cases "fst (spi_transfer True 1 [255] ?s1) ! 0 = token")
      case True
      with tb body have "y = (1, ?s2)" by (simp add: case_prod_beta)
      with b show ?thesis by simp
    next
      case False
      with tb body have "f token endtime ?s2 = Some y" by (simp add: case_prod_beta)
      from IH [OF this] b show ?thesis by (blast intro: hw_step_trans)
    qed
  qed
qed

lemma find_token_step:
  assumes "find_token token us s = Some (r, s')"
  shows "hw_step s s' \<and> (r = 0 \<or> r = 1)"
proof -
  let ?s1 = "snd (timer_read_time s)"
  from assms
  have "find_token_loop token (fst (timer_read_time s) + timer_from_us us ?s1) ?s1 = Some (r, s')"
    by (simp add: find_token_def case_prod_beta)
  from find_token_loop_step [OF this] have "hw_step ?s1 s'" and r: "r = 0 \<or> r = 1"
    by simp_all
  moreover have "hw_step s ?s1" by simp
  ultimately show ?thesis by (blast intro: hw_step_trans)
qed


lemma send_command_scan_state:
  "snd (snd (send_command_scan i ret buf fl t)) = t \<or>
   (\<exists>n d. snd (snd (send_command_scan i ret buf fl t)) = snd (spi_transfer True n d t))"
proof (induction i ret buf fl t rule: send_command_scan.induct)
  case (1 i ret buf cmd_flags t)
  consider (over) "\<not> i < 8"
    | (idle) "i < 8" "buf ! i = 0xFF"
    | (front) "i < 8" "buf ! i \<noteq> 0xFF" "i = 0"
    | (short) "i < 8" "buf ! i \<noteq> 0xFF" "i \<noteq> 0" "cmd_flags AND CF_FULL_RESP = 0"
    | (full) "i < 8" "buf ! i \<noteq> 0xFF" "i \<noteq> 0" "cmd_flags AND CF_FULL_RESP \<noteq> 0"
    by blast
  then show ?case
  proof cases
    case over
    then show ?thesis by (subst send_command_scan.simps) simp
  next
    case idle
    then have "send_command_scan i ret buf cmd_flags t
                 = send_command_scan (i + 1) (buf ! i) buf cmd_flags t"
      by (subst send_command_scan.simps) (simp add: Let_def)
    with idle "1.IH" [of "buf ! i"] show ?thesis by simp
  next
    case front
    then show ?thesis by (subst send_command_scan.simps) (simp add: Let_def)
  next
    case short
    then show ?thesis by (subst send_command_scan.simps) (simp add: Let_def)
  next
    case full
    then have "\<exists>n d. snd (snd (send_command_scan i ret buf cmd_flags t))
                      = snd (spi_transfer True n d t)"
      by (subst send_command_scan.simps) (simp add: Let_def case_prod_beta, blast)
    then show ?thesis ..
  qed
qed

lemma send_command_scan_step [simp]:
  assumes "hw_step s t"
  shows "hw_step s (snd (snd (send_command_scan i ret buf fl t)))"
proof -
  from send_command_scan_state [of i ret buf fl t]
  consider "snd (snd (send_command_scan i ret buf fl t)) = t"
    | n d where "snd (snd (send_command_scan i ret buf fl t)) = snd (spi_transfer True n d t)"
    by blast
  then show ?thesis
  proof cases
    case 1
    with assms show ?thesis by simp
  next
    case 2
    with assms show ?thesis by simp
  qed
qed

lemma send_command_step [simp]:
  "hw_step s t \<Longrightarrow> hw_step s (snd (snd (send_command cmd arg buf fl t)))"
  by (simp add: send_command_def Let_def case_prod_beta)

lemma check_command_step [simp]:
  "hw_step s t \<Longrightarrow> hw_step s (snd (snd (check_command cmd arg buf fl expect attempts t)))"
proof (induction cmd arg buf fl expect attempts t rule: check_command.induct)
  case (1 cmd arg buf fl expect attempts t)
  let ?r = "send_command cmd arg buf fl t"
  have a: "hw_step s (snd (snd ?r))" using "1.prems" by simp
  show ?case
  proof (cases "attempts \<noteq> 0 \<and> \<not> (if fl AND CF_NOT_EXPECT \<noteq> 0 then fst ?r \<noteq> expect
                                         else fst ?r = expect)")
    case False
    with a "1.prems" show ?thesis
      by (subst check_command.simps) (auto simp: case_prod_beta Let_def)
  next
    case True
    let ?s2 = "if attempts - 1 \<noteq> 0 then udelay 1000 (snd (snd ?r)) else snd (snd ?r)"
    have b: "hw_step s ?s2" using a by simp
    have "hw_step s (snd (snd (check_command cmd arg (fst (snd ?r)) fl expect (attempts - 1) ?s2)))"
      using True b
      by (intro "1.IH" [of ?r "fst ?r" "snd ?r" "fst (snd ?r)" "snd (snd ?r)"]) auto
    with True show ?thesis
      by (subst check_command.simps) (simp add: case_prod_beta Let_def)
  qed
qed

lemma read_poll_step [simp]:
  "hw_step s t \<Longrightarrow> hw_step s (snd (snd (read_poll i ret cmd_buf t)))"
proof (induction i ret cmd_buf t rule: read_poll.induct)
  case (1 i ret cmd_buf t)
  let ?x = "spi_transfer True 1 (cmd_buf[0 := 0xFF]) t"
  have a: "hw_step s (snd ?x)" using "1.prems" by simp
  show ?case
  proof (cases "i < 16 \<and> fst ?x ! 0 = 0xFF")
    case False
    with a "1.prems" show ?thesis
      by (subst read_poll.simps) (auto simp: case_prod_beta Let_def)
  next
    case True
    have "hw_step s (snd (snd (read_poll (i + 1) (fst ?x ! 0) (fst ?x) (snd ?x))))"
      using True a
      by (intro "1.IH" [of "cmd_buf[0 := 0xFF]" ?x "fst ?x" "snd ?x"]) auto
    with True show ?thesis
      by (subst read_poll.simps) (simp add: case_prod_beta Let_def)
  qed
qed

lemma read_block_command_step [simp]:
  "hw_step s t \<Longrightarrow> hw_step s (snd (snd (read_block_command cmd arg t)))"
  by (simp add: read_block_command_def Let_def case_prod_beta)

lemma read_block_data_step [simp]:
  "hw_step s t \<Longrightarrow> hw_step s (snd (snd (read_block_data buf len cmd_buf t)))"
  by (simp add: read_block_data_def Let_def case_prod_beta)


lemma write_sector_data_step [simp]:
  "hw_step s t \<Longrightarrow> hw_step s (snd (write_sector_data buf crc cmd_buf ret t))"
  by (simp add: write_sector_data_def Let_def case_prod_beta)

section \<open>The response a block command gets\<close>

lemma first_non_idle_Cons:
  "first_non_idle (b # bs) = (if b = 0xFF then first_non_idle bs else b)"
  by (simp add: first_non_idle_def)

lemma first_non_idle_Nil: "first_non_idle [] = 0xFF"
  by (simp add: first_non_idle_def)



lemma resp_scan_response:
  "i < 8 \<Longrightarrow> 8 \<le> length cmd_buf \<Longrightarrow>
   resp_scan i ret cmd_buf = first_non_idle (take (8 - i) (drop i cmd_buf))"
proof (induction i ret cmd_buf rule: resp_scan.induct)
  case (1 i ret cmd_buf)
  have window: "take (8 - i) (drop i cmd_buf)
                  = cmd_buf ! i # take (8 - (i + 1)) (drop (i + 1) cmd_buf)"
  proof -
    have "drop i cmd_buf = cmd_buf ! i # drop (Suc i) cmd_buf"
      using "1.prems" by (intro Cons_nth_drop_Suc [symmetric]) simp
    moreover have "8 - i = Suc (8 - (i + 1))" using "1.prems" by simp
    ultimately show ?thesis by simp
  qed
  show ?case
  proof (cases "cmd_buf ! i = 0xFF")
    case False
    then have "resp_scan i ret cmd_buf = cmd_buf ! i"
      using "1.prems" by (subst resp_scan.simps) (simp add: Let_def)
    with False show ?thesis by (simp add: window first_non_idle_Cons)
  next
    case True
    have unfold: "resp_scan i ret cmd_buf = resp_scan (i + 1) 0xFF cmd_buf"
      using True "1.prems" by (subst resp_scan.simps) (simp add: Let_def)
    show ?thesis
    proof (cases "i + 1 < 8")
      case True
      have "resp_scan (i + 1) (cmd_buf ! i) cmd_buf
              = first_non_idle (take (8 - (i + 1)) (drop (i + 1) cmd_buf))"
        using True \<open>cmd_buf ! i = 0xFF\<close> "1.prems" by (intro "1.IH") auto
      with \<open>cmd_buf ! i = 0xFF\<close> show ?thesis
        by (simp add: unfold window first_non_idle_Cons)
    next
      case False
      with "1.prems" have i: "i = 7" by simp
      have "resp_scan (i + 1) 0xFF cmd_buf = 0xFF"
        using i by (subst resp_scan.simps) simp
      with unfold have "resp_scan i ret cmd_buf = 0xFF" by simp
      moreover have "first_non_idle (take (8 - i) (drop i cmd_buf)) = 0xFF"
        unfolding window using \<open>cmd_buf ! i = 0xFF\<close> i
        by (simp add: first_non_idle_def)
      ultimately show ?thesis by simp
    qed
  qed
qed

lemma spi_transfer_fst:
  "fst (spi_transfer True n d t) = map (miso t) [clocked t ..< clocked t + n] @ drop n d"
  by (simp add: spi_transfer_def Let_def)

lemma spi_transfer_fst_send [simp]: "fst (spi_transfer False n d t) = d"
  by (simp add: spi_transfer_def Let_def)

lemma spi_transfer_clocked [simp]: "clocked (snd (spi_transfer rx n d t)) = clocked t + n"
  by (simp add: spi_transfer_def Let_def)

lemma spi_transfer_miso [simp]: "miso (snd (spi_transfer rx n d t)) = miso t"
  by (simp add: spi_transfer_def Let_def)

lemma spi_prepare_clocked [simp]: "clocked (spi_prepare t) = clocked t"
  and spi_prepare_miso [simp]: "miso (spi_prepare t) = miso t"
  by (simp_all add: spi_prepare_def)

lemma gpio_out_write_clocked [simp]: "clocked (gpio_out_write v t) = clocked t"
  and gpio_out_write_miso [simp]: "miso (gpio_out_write v t) = miso t"
  by (simp_all add: gpio_out_write_def)

lemma resp_scan_received:
  "resp_scan 0 ret (fst (spi_transfer True 8 d t))
     = first_non_idle (map (miso t) [clocked t ..< clocked t + 8])"
  by (subst resp_scan_response) (simp_all add: spi_transfer_fst)

lemma write_sector_command_response:
  "fst (write_sector_command buf sector s)
     = first_non_idle (map (miso s) [clocked s + 6 ..< clocked s + 14])"
  by (simp add: write_sector_command_def Let_def case_prod_beta resp_scan_received ac_simps)



section \<open>Evaluation on concrete runs, and what a block read leaves unchanged\<close>

lemma crc7_bits_numeral:
  "crc7_bits (numeral k) crc =
     crc7_bits (pred_numeral k) (if crc AND 0x80 \<noteq> 0 then push_bit 1 crc XOR CRC7_POLY
                                  else push_bit 1 crc)"
  by (simp add: numeral_eq_Suc)

lemma crc16_bits_numeral:
  "crc16_bits (numeral k) crc =
     crc16_bits (pred_numeral k) (if crc AND 0x8000 \<noteq> 0 then push_bit 1 crc XOR CRC16_POLY
                                   else push_bit 1 crc)"
  by (simp add: numeral_eq_Suc)

lemmas crc_eval = crc7_bits_numeral crc16_bits_numeral calc_crc7_def calc_crc16_def
  CRC7_POLY_def CRC16_POLY_def populate_buffer_def

lemmas hw_eval = spi_prepare_def gpio_out_write_def spi_transfer_def udelay_def
  timer_read_time_def timer_from_us_def timer_is_before_def memset_def
  gpio_out_setup_def spi_setup_def spi_set_rate_def

lemma err_find_token: "find_token token us s = Some (r, s') \<Longrightarrow> err s' = err s"
  and flags_find_token: "find_token token us s = Some (r, s') \<Longrightarrow> flags s' = flags s"
  using find_token_step [of token us s r s'] by (simp_all add: hw_step_def)

lemma err_read_block_command [simp]: "err (snd (snd (read_block_command cmd arg s))) = err s"
  and flags_read_block_command [simp]: "flags (snd (snd (read_block_command cmd arg s))) = flags s"
  using read_block_command_step [of s s cmd arg] by (simp_all add: hw_step_def)

lemma err_read_block_data [simp]: "err (snd (snd (read_block_data buf len cb s))) = err s"
  and flags_read_block_data [simp]: "flags (snd (snd (read_block_data buf len cb s))) = flags s"
  using read_block_data_step [of s s buf len cb] by (simp_all add: hw_step_def)

lemma err_gpio_out_write [simp]: "err (gpio_out_write v s) = err s"
  and flags_gpio_out_write [simp]: "flags (gpio_out_write v s) = flags s"
  by (simp_all add: gpio_out_write_def)

lemmas run_eval = bench_def hw_eval crc_eval read_block_command_def read_block_data_def
  read_poll.simps find_token_def find_token_loop.simps resp_scan.simps Let_def


lemma read_data_block_outcome:
  assumes cmd: "read_block_command cmd arg s = (r0, cb, s1)"
    and tok: "find_token 0xFE 50000 s1 = Some (found, s2)"
    and dat: "read_block_data buf len cb s2 = (data, trailer, s3)"
    and busy: "find_token 0xFF 50000 s3 = Some (b, s4)"
  shows "read_data_block cmd arg buf len s
           = Some (if r0 = 0 \<and> found \<noteq> 0 \<and>
                      (push_bit 8 (ucast (trailer ! 0)) OR ucast (trailer ! 1) :: u16)
                        = calc_crc16 data (ucast len)
                   then 1 else 0, data,
                   (gpio_out_write True s4)
                     \<lparr>err := err s OR
                        (if (push_bit 8 (ucast (trailer ! 0)) OR ucast (trailer ! 1) :: u16)
                              = calc_crc16 data (ucast len)
                         then 0 else SDE_CRC_ERR) OR
                        (if r0 = 0 \<and> found \<noteq> 0 \<and>
                            (push_bit 8 (ucast (trailer ! 0)) OR ucast (trailer ! 1) :: u16)
                              = calc_crc16 data (ucast len)
                         then 0 else SDE_READ_ERR)\<rparr>)"
proof -
  have e1: "err s1 = err s" using cmd err_read_block_command [of cmd arg s] by simp
  have e2: "err s2 = err s1" using tok by (rule err_find_token)
  have e3: "err s3 = err s2" using dat err_read_block_data [of buf len cb s2] by simp
  have e4: "err s4 = err s3" using busy by (rule err_find_token)
  have e: "err s4 = err s" by (simp add: e1 e2 e3 e4)
  have same: "(gpio_out_write True s4)\<lparr>err := err s\<rparr> = gpio_out_write True s4"
    using e by (simp add: gpio_out_write_def)
  show ?thesis
    by (simp add: read_data_block_def cmd tok dat busy Let_def e same or.assoc)
qed

section \<open>The result of a block read\<close>




section \<open>What a sector write leaves unchanged, and the answers of the block operations\<close>




lemma write_result_bool:
  "flags s AND SDF_INITIALIZED \<noteq> 0 \<Longrightarrow> sdcard_write_sector buf sector s = Some (r, s')
   \<Longrightarrow> r = 0 \<or> r = 1"
  by (auto simp: sdcard_write_sector_def Let_def split: prod.splits if_splits option.splits)

lemma read_data_block_bool:
  "read_data_block cmd arg buf len s = Some (r, d, s') \<Longrightarrow> r = 0 \<or> r = 1"
  by (auto simp: read_data_block_def Let_def split: prod.splits if_splits option.splits)

lemma read_result_bool:
  "flags s AND SDF_INITIALIZED \<noteq> 0 \<Longrightarrow> sdcard_read_sector buf sector s = Some (r, d, s')
   \<Longrightarrow> r = 0 \<or> r = 1"
  by (auto simp: sdcard_read_sector_def Let_def dest: read_data_block_bool)

lemma crc16_bits_zero [simp]: "crc16_bits n 0 = 0"
  by (induction n) simp_all

lemma crc16_loop_zeros [simp]: "crc16_loop (replicate n 0) 0 = 0"
  by (induction n) simp_all


section \<open>The result of a sector write\<close>



section \<open>The not-ready guard\<close>

text \<open>
  C4. When the initialised flag is not set, a sector read and a sector write answer 0xFF
  (the \<open>-1\<close> of the code) at once: the state, with its error set, its chip-select
  level and its trace of hardware calls, is the one they were given, and the read buffer is
  untouched. The answer differs from the two answers, 0 for failure and 1 for success, that
  the operations give on an initialised driver.
\<close>

theorem not_ready_guard:
  assumes "flags s AND SDF_INITIALIZED = 0"
  shows "sdcard_read_sector buf sector s = Some (0xFF, buf, s) \<and>
         sdcard_write_sector buf sector s = Some (0xFF, s) \<and>
         (\<forall>t r d t'. flags t AND SDF_INITIALIZED \<noteq> 0 \<longrightarrow>
            (sdcard_read_sector buf sector t = Some (r, d, t') \<longrightarrow> r = 0 \<or> r = 1) \<and>
            (sdcard_write_sector buf sector t = Some (r, t') \<longrightarrow> r = 0 \<or> r = 1))"
proof (intro conjI allI impI)
  show "sdcard_read_sector buf sector s = Some (0xFF, buf, s)"
    using assms by (simp add: sdcard_read_sector_def)
  show "sdcard_write_sector buf sector s = Some (0xFF, s)"
    using assms by (simp add: sdcard_write_sector_def)
next
  fix t r d t'
  assume "flags t AND SDF_INITIALIZED \<noteq> 0" "sdcard_read_sector buf sector t = Some (r, d, t')"
  then show "r = 0 \<or> r = 1" by (rule read_result_bool)
next
  fix t r t'
  assume "flags t AND SDF_INITIALIZED \<noteq> 0" "sdcard_write_sector buf sector t = Some (r, t')"
  then show "r = 0 \<or> r = 1" by (rule write_result_bool)
qed

theorem not_ready_guard_witness:
  "sdcard_read_sector [] 0 (bench []) = Some (0xFF, [], bench []) \<and>
   sdcard_write_sector [] 0 (bench []) = Some (0xFF, bench [])"
proof -
  have "flags (bench []) AND SDF_INITIALIZED = 0" by (simp add: bench_def)
  from not_ready_guard [OF this, of "[]" 0] show ?thesis by simp
qed

section \<open>The frame on the wire\<close>

lemma length_populate_buffer [simp]: "length (populate_buffer cmd arg buf) = length buf"
  by (simp add: populate_buffer_def Let_def)






lemma hw_step_prefix: "hw_step s t \<Longrightarrow> prefix (trace s) (trace t)"
  by (simp add: hw_step_def)

lemma write_sector_command_trace:
  "trace (snd (snd (snd (write_sector_command buf sector s))))
     = trace s @ [SpiPrepare, CsWrite False,
                  SpiTransfer False (command_frame SDCMD_WRITE_BLOCK
                    (if flags s AND SDF_HIGH_CAPACITY = 0 then sector * SD_SECTOR_SIZE
                     else sector)),
                  SpiTransfer True (replicate 8 0xFF)]"
  by (simp add: write_sector_command_def Let_def case_prod_beta command_frame_def
      spi_transfer_def spi_prepare_def gpio_out_write_def memset_def)

lemma read_block_command_trace:
  "prefix (trace s @ [SpiPrepare, CsWrite False, SpiTransfer False (command_frame cmd arg)])
     (trace (snd (snd (read_block_command cmd arg s))))"
proof -
  let ?t = "snd (spi_transfer False 6 (populate_buffer cmd arg (replicate 8 0))
                  (gpio_out_write False (spi_prepare s)))"
  have "trace ?t = trace s @ [SpiPrepare, CsWrite False, SpiTransfer False (command_frame cmd arg)]"
    by (simp add: command_frame_def spi_transfer_def spi_prepare_def gpio_out_write_def Let_def)
  moreover have "prefix (trace ?t)
      (trace (snd (snd (read_poll 0 0 (populate_buffer cmd arg (replicate 8 0)) ?t))))"
    by (rule hw_step_prefix) simp
  ultimately show ?thesis
    by (simp add: read_block_command_def Let_def case_prod_beta)
qed

lemma write_sector_trace:
  assumes "flags s AND SDF_INITIALIZED \<noteq> 0"
    and "sdcard_write_sector buf sector s = Some (r, s')"
  shows "prefix (trace (snd (snd (snd (write_sector_command buf sector s))))) (trace s')"
proof -
  obtain ret crc cb s1 where c: "write_sector_command buf sector s = (ret, crc, cb, s1)"
    by (cases "write_sector_command buf sector s")
  obtain tok s2 where d: "write_sector_data buf crc cb ret s1 = (tok, s2)"
    by (cases "write_sector_data buf crc cb ret s1")
  have p12: "prefix (trace s1) (trace s2)"
    using write_sector_data_step [of s1 s1 buf crc cb ret] d by (simp add: hw_step_def)
  show ?thesis
  proof (cases "ret = 0xFF")
    case True
    with assms c show ?thesis
      by (auto simp: sdcard_write_sector_def Let_def gpio_out_write_def)
  next
    case False
    with assms c d obtain found s3 where f: "find_token 0xFF 50000 s2 = Some (found, s3)"
      and s': "trace s' = trace (gpio_out_write True s3)"
      by (auto simp: sdcard_write_sector_def Let_def split: option.splits if_splits)
    have "prefix (trace s2) (trace s3)"
      using find_token_step [OF f] by (simp add: hw_step_def)
    with p12 have "prefix (trace s1) (trace (gpio_out_write True s3))"
      by (auto simp: gpio_out_write_def intro: prefix_order.trans)
    with c s' show ?thesis by simp
  qed
qed

lemma read_data_block_trace:
  assumes "read_data_block cmd arg buf len s = Some (r, d, s')"
  shows "prefix (trace (snd (snd (read_block_command cmd arg s)))) (trace s')"
proof -
  obtain r0 cb s1 where c: "read_block_command cmd arg s = (r0, cb, s1)"
    by (cases "read_block_command cmd arg s")
  from assms c obtain found s2 where t: "find_token 0xFE 50000 s1 = Some (found, s2)"
    by (auto simp: read_data_block_def Let_def split: option.splits)
  obtain data tr s3 where dat: "read_block_data buf len cb s2 = (data, tr, s3)"
    by (cases "read_block_data buf len cb s2")
  from assms c t dat obtain busy s4 where b: "find_token 0xFF 50000 s3 = Some (busy, s4)"
    by (auto simp: read_data_block_def Let_def split: option.splits)
  from read_data_block_outcome [OF c t dat b] assms
  have s': "trace s' = trace (gpio_out_write True s4)"
    by (auto simp: Let_def)
  have "prefix (trace s1) (trace s2)" using find_token_step [OF t] by (simp add: hw_step_def)
  moreover have "prefix (trace s2) (trace s3)"
    using read_block_data_step [of s2 s2 buf len cb] dat by (simp add: hw_step_def)
  moreover have "prefix (trace s3) (trace s4)"
    using find_token_step [OF b] by (simp add: hw_step_def)
  ultimately have "prefix (trace s1) (trace (gpio_out_write True s4))"
    by (auto simp: gpio_out_write_def intro: prefix_order.trans)
  with c s' show ?thesis by simp
qed

section \<open>Address translation\<close>





section \<open>Counting the hardware calls of the retry loop\<close>

lemma events_since_append: "trace t = trace s @ evs \<Longrightarrow> events_since s t = evs"
  by (simp add: events_since_def)

lemma events_since_self [simp]: "events_since s s = []"
  by (simp add: events_since_def)

lemma events_since_trans:
  assumes "prefix (trace s) (trace t)" and "prefix (trace t) (trace u)"
  shows "events_since s u = events_since s t @ events_since t u"
proof -
  from assms obtain a b where "trace t = trace s @ a" "trace u = trace t @ b"
    by (auto simp: prefix_def)
  then show ?thesis by (simp add: events_since_def)
qed

lemma send_command_scan_events:
  assumes "\<And>rx bs. e \<noteq> SpiTransfer rx bs"
  shows "count_list (events_since t (snd (snd (send_command_scan i ret buf fl t)))) e = 0"
proof -
  have ne: "SpiTransfer rx bs \<noteq> e" for rx bs
    using assms [of rx bs] by (rule not_sym)
  have "trace (snd (spi_transfer rx n d t)) = trace t @ [SpiTransfer rx (take n d)]" for rx n d
    by (simp add: spi_transfer_def Let_def)
  then have ev: "events_since t (snd (spi_transfer rx n d t)) = [SpiTransfer rx (take n d)]"
    for rx n d
    by (rule events_since_append)
  from send_command_scan_state [of i ret buf fl t] show ?thesis
    by (auto simp: ev ne)
qed

lemma send_command_events:
  assumes "\<And>rx bs. e \<noteq> SpiTransfer rx bs"
  shows "count_list (events_since s (snd (snd (send_command cmd arg buf fl s)))) e
           = count_list [SpiPrepare, CsWrite False, CsWrite True] e"
proof -
  define buf1 where "buf1 = memset buf 0 8"
  define s2 where "s2 = gpio_out_write False (spi_prepare s)"
  define a where "a = (if fl AND CF_APP_CMD \<noteq> 0
      then spi_transfer False 6 ((buf1[0 := SDCMD_APP_CMD OR 0x40])
             [5 := calc_crc7 (buf1[0 := SDCMD_APP_CMD OR 0x40]) 5]) s2
      else (buf1, s2))"
  define b where "b = spi_transfer False 6 (populate_buffer cmd arg (fst a)) (snd a)"
  define c where "c = spi_transfer True 8 (memset (fst b) 0xFF 8) (snd b)"
  define d where "d = send_command_scan 0 0 (fst c) fl (snd c)"
  have res: "snd (snd (send_command cmd arg buf fl s)) = gpio_out_write True (snd (snd d))"
    by (simp add: send_command_def Let_def case_prod_beta d_def c_def b_def a_def s2_def buf1_def)
  have tr: "trace (snd (spi_transfer rx n x t)) = trace t @ [SpiTransfer rx (take n x)]"
    for rx n x t
    by (simp add: spi_transfer_def Let_def)
  have t2: "trace s2 = trace s @ [SpiPrepare, CsWrite False]"
    by (simp add: s2_def gpio_out_write_def spi_prepare_def)
  have ne: "SpiTransfer rx bs \<noteq> e" for rx bs
    using assms [of rx bs] by (rule not_sym)
  define xs where "xs = (if fl AND CF_APP_CMD \<noteq> 0
      then [SpiTransfer False (take 6 ((buf1[0 := SDCMD_APP_CMD OR 0x40])
              [5 := calc_crc7 (buf1[0 := SDCMD_APP_CMD OR 0x40]) 5]))]
      else [])"
  have ta: "trace (snd a) = trace s2 @ xs" "count_list xs e = 0"
    by (simp_all add: a_def xs_def tr ne)
  have tc: "trace (snd c) = trace (snd a) @ [SpiTransfer False (take 6 (populate_buffer cmd arg (fst a))),
              SpiTransfer True (take 8 (memset (fst b) 0xFF 8))]"
    by (simp add: c_def b_def tr)
  have pd: "prefix (trace (snd c)) (trace (snd (snd d)))"
    unfolding d_def by (rule hw_step_prefix) simp
  then obtain ys where td: "trace (snd (snd d)) = trace (snd c) @ ys"
    by (auto simp: prefix_def)
  then have "events_since (snd c) (snd (snd d)) = ys" by (rule events_since_append)
  with send_command_scan_events [OF assms, of "snd c" 0 0 "fst c" fl]
  have ys: "count_list ys e = 0" by (simp add: d_def)
  have "trace (gpio_out_write True (snd (snd d)))
          = trace s @ ([SpiPrepare, CsWrite False] @ xs @
              [SpiTransfer False (take 6 (populate_buffer cmd arg (fst a))),
               SpiTransfer True (take 8 (memset (fst b) 0xFF 8))] @ ys @ [CsWrite True])"
    by (simp add: gpio_out_write_def td tc ta t2)
  then have "events_since s (gpio_out_write True (snd (snd d)))
          = [SpiPrepare, CsWrite False] @ xs @
              [SpiTransfer False (take 6 (populate_buffer cmd arg (fst a))),
               SpiTransfer True (take 8 (memset (fst b) 0xFF 8))] @ ys @ [CsWrite True]"
    by (rule events_since_append)
  with ta(2) ys ne show ?thesis
    by (auto simp: res)
qed


lemma unat_pos: "attempts \<noteq> 0 \<Longrightarrow> 0 < unat (attempts :: u8)"
  by (simp add: unat_gt_0)

lemma attempt_start_Suc:
  "attempt_start cmd arg fl (Suc k) bs = attempt_start cmd arg fl k (failed_attempt cmd arg fl bs)"
  by (simp add: attempt_start_def funpow_swap1)

lemma attempt_response_Suc:
  "attempt_response cmd arg fl (Suc k) bs
     = attempt_response cmd arg fl k (failed_attempt cmd arg fl bs)"
  by (simp add: attempt_response_def attempt_start_Suc)

lemma attempt_response_0:
  "attempt_response cmd arg fl 0 (buf, s) = fst (send_command cmd arg buf fl s)"
  by (simp add: attempt_response_def attempt_start_def)

lemma check_command_run:
  "k \<le> unat attempts \<Longrightarrow>
   \<forall>j<k. \<not> accepted fl expect (attempt_response cmd arg fl j (buf, s)) \<Longrightarrow>
   (k < unat attempts \<longrightarrow> accepted fl expect (attempt_response cmd arg fl k (buf, s))) \<Longrightarrow>
   fst (check_command cmd arg buf fl expect attempts s) = (if k < unat attempts then 1 else 0) \<and>
   count_list (events_since s (snd (snd (check_command cmd arg buf fl expect attempts s))))
       (CsWrite False) = (if k < unat attempts then k + 1 else k) \<and>
   count_list (events_since s (snd (snd (check_command cmd arg buf fl expect attempts s))))
       (Udelay 1000) = (if k < unat attempts then k else k - 1)"
proof (induction k arbitrary: buf s attempts)
  case 0
  let ?r = "send_command cmd arg buf fl s"
  show ?case
  proof (cases "attempts = 0")
    case True
    then show ?thesis by (subst check_command.simps)+ simp
  next
    case False
    then have pos: "0 < unat attempts" by (rule unat_pos)
    with "0.prems" have "accepted fl expect (fst ?r)" by (simp add: attempt_response_0)
    then have "check_command cmd arg buf fl expect attempts s = (1, fst (snd ?r), snd (snd ?r))"
      using False by (subst check_command.simps) (simp add: case_prod_beta accepted_def)
    with pos show ?thesis by (simp add: send_command_events)
  qed
next
  case (Suc k)
  let ?r = "send_command cmd arg buf fl s"
  let ?s1 = "snd (snd ?r)"
  from Suc.prems have nz: "attempts \<noteq> 0" by auto
  from Suc.prems have "\<not> accepted fl expect (attempt_response cmd arg fl 0 (buf, s))" by blast
  then have rej: "\<not> accepted fl expect (fst ?r)" by (simp add: attempt_response_0)
  let ?s2 = "if attempts - 1 \<noteq> 0 then udelay 1000 ?s1 else ?s1"
  have unfold: "check_command cmd arg buf fl expect attempts s
                  = check_command cmd arg (fst (snd ?r)) fl expect (attempts - 1) ?s2"
    using nz rej by (subst check_command.simps) (simp add: case_prod_beta accepted_def Let_def)
  have un: "unat (attempts - 1) = unat attempts - 1" using nz by (rule unat_minus_one)
  have p1: "prefix (trace s) (trace ?s2)" by (rule hw_step_prefix) simp
  have p2: "prefix (trace ?s2)
              (trace (snd (snd (check_command cmd arg (fst (snd ?r)) fl expect (attempts - 1) ?s2))))"
    by (rule hw_step_prefix) simp
  note split = events_since_trans [OF p1 p2]
  show ?case
  proof (cases "attempts - 1 = 0")
    case True
    with un Suc.prems have k: "k = 0" and one: "unat attempts = 1" by auto
    have s2: "?s2 = ?s1" using True by (simp only: if_False not_True_eq_False refl)
    have "check_command cmd arg (fst (snd ?r)) fl expect (attempts - 1) ?s1
            = (0, fst (snd ?r), ?s1)"
      using True by (subst check_command.simps) (simp only: if_False not_True_eq_False refl)
    with k one show ?thesis by (simp only: unfold s2) (simp add: send_command_events)
  next
    case False
    let ?u = "udelay 1000 ?s1"
    have s2: "?s2 = ?u" using False by (simp only: if_True not_False_eq_True simp_thms)
    note unfold' = unfold [unfolded s2] and split' = split [unfolded s2]
    have fa: "failed_attempt cmd arg fl (buf, s) = (fst (snd ?r), ?u)"
      by (simp add: failed_attempt_def case_prod_beta)
    have e1: "events_since s ?u = events_since s ?s1 @ [Udelay 1000]"
    proof -
      have "prefix (trace s) (trace ?s1)" by (rule hw_step_prefix) simp
      then obtain a where "trace ?s1 = trace s @ a" by (auto simp: prefix_def)
      then show ?thesis by (simp add: udelay_def events_since_def)
    qed
    have kle: "k \<le> unat (attempts - 1)" using Suc.prems un by simp
    have rejs: "\<forall>j<k. \<not> accepted fl expect
                  (attempt_response cmd arg fl j (fst (snd ?r), ?u))"
      using Suc.prems(2) by (auto simp: attempt_response_Suc fa [symmetric])
    have acc: "k < unat (attempts - 1) \<longrightarrow> accepted fl expect
                  (attempt_response cmd arg fl k (fst (snd ?r), ?u))"
      using Suc.prems(3) un by (auto simp: attempt_response_Suc fa [symmetric])
    note IH = Suc.IH [OF kle rejs acc]
    have kpos: "k < unat (attempts - 1) \<or> 0 < k"
      using False kle by (cases "k = 0") (auto simp: unat_gt_0)
    from IH kpos un show ?thesis
      by (auto simp: unfold' split' e1 send_command_events)
  qed
qed

section \<open>The retry policy\<close>

text \<open>
  C6. \<open>check_command\<close> with at least one attempt: when no attempt gets a response
  that passes the selected test, it answers 0 after exactly \<open>attempts\<close> command
  exchanges and \<open>attempts - 1\<close> delays of 1000 microseconds; when attempt number \<open>k\<close>
  (counted from 0) is the first whose response passes, it answers 1 after \<open>k + 1\<close>
  exchanges and \<open>k\<close> delays, that is, without a delay or a further exchange after
  the success. Exchanges are counted by the writes of level 0 to the chip-select pin, of
  which every \<open>send_command\<close> makes exactly one, and it makes no delay.
\<close>

theorem check_command_attempts:
  assumes "attempts \<noteq> 0"
  shows "((\<forall>k < unat attempts. \<not> accepted fl expect (attempt_response cmd arg fl k (buf, s))) \<longrightarrow>
            fst (check_command cmd arg buf fl expect attempts s) = 0 \<and>
            count_list (events_since s (snd (snd (check_command cmd arg buf fl expect attempts s))))
              (CsWrite False) = unat attempts \<and>
            count_list (events_since s (snd (snd (check_command cmd arg buf fl expect attempts s))))
              (Udelay 1000) = unat attempts - 1) \<and>
         (\<forall>k < unat attempts.
            (\<forall>j<k. \<not> accepted fl expect (attempt_response cmd arg fl j (buf, s))) \<and>
            accepted fl expect (attempt_response cmd arg fl k (buf, s)) \<longrightarrow>
            fst (check_command cmd arg buf fl expect attempts s) = 1 \<and>
            count_list (events_since s (snd (snd (check_command cmd arg buf fl expect attempts s))))
              (CsWrite False) = k + 1 \<and>
            count_list (events_since s (snd (snd (check_command cmd arg buf fl expect attempts s))))
              (Udelay 1000) = k) \<and>
         count_list (events_since s (snd (snd (send_command cmd arg buf fl s)))) (CsWrite False) = 1 \<and>
         count_list (events_since s (snd (snd (send_command cmd arg buf fl s)))) (Udelay 1000) = 0"
proof (intro conjI impI allI)
  assume all: "\<forall>k < unat attempts. \<not> accepted fl expect (attempt_response cmd arg fl k (buf, s))"
  from check_command_run [of "unat attempts" attempts fl expect cmd arg buf s] all
  show "fst (check_command cmd arg buf fl expect attempts s) = 0"
    and "count_list (events_since s (snd (snd (check_command cmd arg buf fl expect attempts s))))
              (CsWrite False) = unat attempts"
    and "count_list (events_since s (snd (snd (check_command cmd arg buf fl expect attempts s))))
              (Udelay 1000) = unat attempts - 1"
    by simp_all
next
  fix k
  assume k: "k < unat attempts"
    and h: "(\<forall>j<k. \<not> accepted fl expect (attempt_response cmd arg fl j (buf, s))) \<and>
            accepted fl expect (attempt_response cmd arg fl k (buf, s))"
  from check_command_run [of k attempts fl expect cmd arg buf s] k h
  show "fst (check_command cmd arg buf fl expect attempts s) = 1"
    and "count_list (events_since s (snd (snd (check_command cmd arg buf fl expect attempts s))))
              (CsWrite False) = k + 1"
    and "count_list (events_since s (snd (snd (check_command cmd arg buf fl expect attempts s))))
              (Udelay 1000) = k"
    by simp_all
next
  show "count_list (events_since s (snd (snd (send_command cmd arg buf fl s)))) (CsWrite False) = 1"
    and "count_list (events_since s (snd (snd (send_command cmd arg buf fl s)))) (Udelay 1000) = 0"
    by (simp_all add: send_command_events)
qed

theorem check_command_attempts_witness:
  "fst (check_command SDCMD_GO_IDLE_STATE 0 (replicate 8 0) 0 1 3 (bench [])) = 0 \<and>
   count_list (events_since (bench [])
      (snd (snd (check_command SDCMD_GO_IDLE_STATE 0 (replicate 8 0) 0 1 3 (bench [])))))
      (CsWrite False) = 3 \<and>
   count_list (events_since (bench [])
      (snd (snd (check_command SDCMD_GO_IDLE_STATE 0 (replicate 8 0) 0 1 3 (bench [])))))
      (Udelay 1000) = 2"
proof -
  note ev = run_eval send_command_def send_command_scan.simps CF_APP_CMD_def CF_FULL_RESP_def
    CF_NOT_EXPECT_def SDCMD_GO_IDLE_STATE_def attempt_response_def attempt_start_def
    failed_attempt_def accepted_def
  have rej: "\<not> accepted 0 1
      (attempt_response SDCMD_GO_IDLE_STATE 0 0 k (replicate 8 0, bench []))" if "k < 3" for k
  proof -
    from that consider "k = 0" | "k = Suc 0" | "k = Suc (Suc 0)" by linarith
    then show ?thesis by cases (simp_all add: ev)
  qed
  have n: "(3 :: u8) \<noteq> 0" and u: "unat (3 :: u8) = 3" by simp_all
  from check_command_attempts [OF n, of 0 1 SDCMD_GO_IDLE_STATE 0 "replicate 8 0" "bench []"] rej
  show ?thesis by (simp add: u)
qed

section \<open>What the initialisation stages leave unchanged\<close>

lemma err_check_command [simp]:
  "err (snd (snd (check_command cmd arg buf fl expect attempts s))) = err s"
  and flags_check_command [simp]:
  "flags (snd (snd (check_command cmd arg buf fl expect attempts s))) = flags s"
  using check_command_step [of s s cmd arg buf fl expect attempts] by (simp_all add: hw_step_def)

lemma err_send_command [simp]: "err (snd (snd (send_command cmd arg buf fl s))) = err s"
  and flags_send_command [simp]: "flags (snd (snd (send_command cmd arg buf fl s))) = flags s"
  using send_command_step [of s s cmd arg buf fl] by (simp_all add: hw_step_def)

lemma init_clocks_step [simp]: "hw_step s t \<Longrightarrow> hw_step s (init_clocks n buf t)"
  by (induction n arbitrary: t) simp_all

lemma err_init_clocks [simp]: "err (init_clocks n buf s) = err s"
  and flags_init_clocks [simp]: "flags (init_clocks n buf s) = flags s"
  using init_clocks_step [of s s n buf] by (simp_all add: hw_step_def)

lemma err_setup [simp]:
  "err (gpio_out_setup v s) = err s" "flags (gpio_out_setup v s) = flags s"
  "err (spi_setup r s) = err s" "flags (spi_setup r s) = flags s"
  "err (spi_set_rate r s) = err s" "flags (spi_set_rate r s) = flags s"
  "err (udelay n s) = err s" "flags (udelay n s) = flags s"
  "err (spi_prepare s) = err s" "flags (spi_prepare s) = flags s"
  by (simp_all add: gpio_out_setup_def spi_setup_def spi_set_rate_def udelay_def spi_prepare_def)

lemma word_or_absorb: "(a :: u8) AND (a OR b) = a"
  by (auto simp: bit_eq_iff bit_and_iff bit_or_iff)

lemma initialized_or_high_capacity [simp]:
  "(f OR SDF_HIGH_CAPACITY) AND SDF_INITIALIZED = f AND SDF_INITIALIZED"
proof -
  have "SDF_HIGH_CAPACITY AND SDF_INITIALIZED = 0"
    by (simp add: SDF_HIGH_CAPACITY_def SDF_INITIALIZED_def)
  then show ?thesis by (simp add: bit.conj_disj_distrib2)
qed

lemma check_command_fields:
  "check_command cmd arg buf fl expect attempts s = (r, b, s') \<Longrightarrow>
   err s' = err s \<and> flags s' = flags s"
  using check_command_step [of s s cmd arg buf fl expect attempts] by (simp add: hw_step_def)

lemma sdcard_init_stages_frame:
  "(fst (sdcard_init_stages s) = 0 \<or> fst (sdcard_init_stages s) = 1) \<and>
   err s AND err (snd (sdcard_init_stages s)) = err s \<and>
   (fst (sdcard_init_stages s) = 1 \<longrightarrow> err (snd (sdcard_init_stages s)) = err s) \<and>
   flags (snd (sdcard_init_stages s)) AND SDF_INITIALIZED = flags s AND SDF_INITIALIZED"
proof -
  define buf where "buf = memset (replicate 8 0) 0xFF 8"
  define s5 where "s5 = init_clocks 10 buf
      (spi_prepare (udelay 1000 (spi_setup SPI_INIT_RATE (gpio_out_setup True s))))"
  have f5: "err s5 = err s" "flags s5 = flags s" by (simp_all add: s5_def)
  obtain r1 b1 s6 where c1: "check_command SDCMD_GO_IDLE_STATE 0 buf 0 1 50 s5 = (r1, b1, s6)"
    by (cases "check_command SDCMD_GO_IDLE_STATE 0 buf 0 1 50 s5")
  have f6: "err s6 = err s" "flags s6 = flags s"
    using check_command_fields [OF c1] f5 by simp_all
  obtain r2 b2 s7 where c2: "check_command SDCMD_SEND_IF_COND 0x10A b1
      (CF_FULL_RESP OR CF_NOT_EXPECT) 0xFF 3 s6 = (r2, b2, s7)"
    by (cases "check_command SDCMD_SEND_IF_COND 0x10A b1 (CF_FULL_RESP OR CF_NOT_EXPECT) 0xFF 3 s6")
  have f7: "err s7 = err s" "flags s7 = flags s"
    using check_command_fields [OF c2] f6 by simp_all
  obtain r3 b3 s8 where c3: "check_command SDCMD_CRC_ON_OFF 1 b2 0 1 3 s7 = (r3, b3, s8)"
    by (cases "check_command SDCMD_CRC_ON_OFF 1 b2 0 1 3 s7")
  have f8: "err s8 = err s" "flags s8 = flags s"
    using check_command_fields [OF c3] f7 by simp_all
  obtain r4 b4 s9 where c4: "check_command SDCMD_READ_OCR 0 b3 CF_FULL_RESP 1 20 s8 = (r4, b4, s9)"
    by (cases "check_command SDCMD_READ_OCR 0 b3 CF_FULL_RESP 1 20 s8")
  have f9: "err s9 = err s" "flags s9 = flags s"
    using check_command_fields [OF c4] f8 by simp_all
  have f10: "err (snd (snd (check_command SDCMD_SEND_OP_COND a b4 CF_APP_CMD 0 250 s9))) = err s"
    "flags (snd (snd (check_command SDCMD_SEND_OP_COND a b4 CF_APP_CMD 0 250 s9))) = flags s"
    for a
    by (simp_all add: f9)
  have f11: "err (snd (snd (check_command SDCMD_READ_OCR 0 b CF_FULL_RESP 0 5
                (snd (snd (check_command SDCMD_SEND_OP_COND a b4 CF_APP_CMD 0 250 s9)))))) = err s"
    "flags (snd (snd (check_command SDCMD_READ_OCR 0 b CF_FULL_RESP 0 5
                (snd (snd (check_command SDCMD_SEND_OP_COND a b4 CF_APP_CMD 0 250 s9)))))) = flags s"
    for a b
    by (simp_all add: f9)
  show ?thesis
    unfolding sdcard_init_stages_def Let_def
    apply (fold buf_def)
    apply (fold s5_def)
    apply (simp only: c1 c2 c3 c4 prod.case)
    apply (simp add: case_prod_beta f5 f6 f7 f8 f9 f10 f11 word_or_absorb)
    done
qed

section \<open>The outcome of the write-protect check and of the initialisation\<close>

lemma read_data_block_SomeE:
  assumes "read_data_block cmd arg buf len s = Some (r, d, s')"
  obtains r0 cb s1 found s2 data tr s3 busy s4 where
    "read_block_command cmd arg s = (r0, cb, s1)"
    "find_token 0xFE 50000 s1 = Some (found, s2)"
    "read_block_data buf len cb s2 = (data, tr, s3)"
    "find_token 0xFF 50000 s3 = Some (busy, s4)"
proof -
  obtain r0 cb s1 where c: "read_block_command cmd arg s = (r0, cb, s1)"
    by (cases "read_block_command cmd arg s")
  from assms c obtain found s2 where t: "find_token 0xFE 50000 s1 = Some (found, s2)"
    by (auto simp: read_data_block_def Let_def split: option.splits)
  obtain data tr s3 where dat: "read_block_data buf len cb s2 = (data, tr, s3)"
    by (cases "read_block_data buf len cb s2")
  from assms c t dat obtain busy s4 where b: "find_token 0xFF 50000 s3 = Some (busy, s4)"
    by (auto simp: read_data_block_def Let_def split: option.splits)
  from c t dat b show ?thesis by (rule that)
qed

lemma read_data_block_fields:
  assumes "read_data_block cmd arg buf len s = Some (r, d, s')"
  shows "flags s' = flags s"
    and "err s' = err s \<or> err s' = err s OR SDE_READ_ERR
           \<or> err s' = err s OR SDE_CRC_ERR OR SDE_READ_ERR"
    and "r = 1 \<longrightarrow> err s' = err s"
proof -
  from assms obtain r0 cb s1 found s2 data tr s3 busy s4 where
    c: "read_block_command cmd arg s = (r0, cb, s1)"
    and t: "find_token 0xFE 50000 s1 = Some (found, s2)"
    and dat: "read_block_data buf len cb s2 = (data, tr, s3)"
    and b: "find_token 0xFF 50000 s3 = Some (busy, s4)"
    by (rule read_data_block_SomeE)
  have f1: "flags s1 = flags s" using c flags_read_block_command [of cmd arg s] by simp
  have f2: "flags s2 = flags s1" using t by (rule flags_find_token)
  have f3: "flags s3 = flags s2" using dat flags_read_block_data [of buf len cb s2] by simp
  have f4: "flags s4 = flags s3" using b by (rule flags_find_token)
  let ?crc_ok = "(push_bit 8 (ucast (tr ! 0)) OR ucast (tr ! 1) :: u16) = calc_crc16 data (ucast len)"
  let ?ok = "r0 = 0 \<and> found \<noteq> 0 \<and> ?crc_ok"
  from read_data_block_outcome [OF c t dat b] assms
  have r: "r = (if ?ok then 1 else 0)"
    and s': "s' = (gpio_out_write True s4)
                  \<lparr>err := err s OR (if ?crc_ok then 0 else SDE_CRC_ERR)
                                OR (if ?ok then 0 else SDE_READ_ERR)\<rparr>"
    by (simp_all add: Let_def)
  show "flags s' = flags s" by (simp add: s' f1 f2 f3 f4)
  show "err s' = err s \<or> err s' = err s OR SDE_READ_ERR
           \<or> err s' = err s OR SDE_CRC_ERR OR SDE_READ_ERR"
    by (cases ?crc_ok; cases ?ok) (simp_all add: s')
  show "r = 1 \<longrightarrow> err s' = err s"
    by (cases ?ok) (simp_all add: r s')
qed

lemma write_protect_SomeE:
  assumes "sdcard_check_write_protect s = Some (wp, s')"
  obtains r csd where "read_data_block SDCMD_SEND_CSD 0 (replicate 16 0) 16 s = Some (r, csd, s')"
    and "wp = (if r = 0 \<or> csd ! 14 AND 0x30 \<noteq> 0 then 0 else 1)"
  using assms
  by (auto simp: sdcard_check_write_protect_def split: option.splits if_splits)

lemma initialized_or_write_protected [simp]:
  "(f OR SDF_WRITE_PROTECTED) AND SDF_INITIALIZED = f AND SDF_INITIALIZED"
proof -
  have "SDF_WRITE_PROTECTED AND SDF_INITIALIZED = 0"
    by (simp add: SDF_WRITE_PROTECTED_def SDF_INITIALIZED_def)
  then show ?thesis by (simp add: bit.conj_disj_distrib2)
qed

lemma or_and_same [simp]: "((f :: u8) OR b) AND b = b"
  by (auto simp: bit_eq_iff bit_and_iff bit_or_iff)

lemma sdcard_init_initialized:
  assumes "sdcard_init t = Some (r, t')"
    and "flags t AND SDF_INITIALIZED = 0" and "flags t' AND SDF_INITIALIZED \<noteq> 0"
  shows "r = 1 \<and> (\<exists>t1 csd t2. sdcard_init_stages t = (1, t1) \<and>
            read_data_block SDCMD_SEND_CSD 0 (replicate 16 0) 16 t1 = Some (1, csd, t2) \<and>
            csd ! 14 AND 0x30 = 0)"
proof -
  obtain ok t1 where st: "sdcard_init_stages t = (ok, t1)"
    by (cases "sdcard_init_stages t")
  have ok: "ok = 0 \<or> ok = 1" and f1: "flags t1 AND SDF_INITIALIZED = flags t AND SDF_INITIALIZED"
    using sdcard_init_stages_frame [of t] st by simp_all
  show ?thesis
  proof (cases "ok = 0")
    case True
    with assms st f1 show ?thesis by (auto simp: sdcard_init_def)
  next
    case False
    with ok have ok1: "ok = 1" by simp
    with assms(1) st obtain wp t2 where w: "sdcard_check_write_protect t1 = Some (wp, t2)"
      by (auto simp: sdcard_init_def split: option.splits)
    from w obtain r0 csd where
      rd: "read_data_block SDCMD_SEND_CSD 0 (replicate 16 0) 16 t1 = Some (r0, csd, t2)"
      and wp: "wp = (if r0 = 0 \<or> csd ! 14 AND 0x30 \<noteq> 0 then 0 else 1)"
      by (rule write_protect_SomeE)
    have f2: "flags t2 = flags t1" using rd by (rule read_data_block_fields(1))
    have r0: "r0 = 0 \<or> r0 = 1" using rd by (rule read_data_block_bool)
    show ?thesis
    proof (cases "wp = 0")
      case True
      with assms st ok1 w f1 f2 show ?thesis by (auto simp: sdcard_init_def)
    next
      case False
      with wp r0 have "r0 = 1" "csd ! 14 AND 0x30 = 0" by (auto split: if_splits)
      with assms(1) st ok1 w False rd show ?thesis by (auto simp: sdcard_init_def)
    qed
  qed
qed

lemma init_clocks_numeral:
  "init_clocks (numeral k) buf s
     = init_clocks (pred_numeral k) buf (snd (spi_transfer False 8 buf s))"
  by (simp add: numeral_eq_Suc)

lemmas init_eval = run_eval init_card_def init_clocks_numeral sdcard_init_stages_def
  check_command.simps send_command_def send_command_scan.simps
  CF_APP_CMD_def CF_FULL_RESP_def CF_NOT_EXPECT_def SPI_INIT_RATE_def SD_SECTOR_SIZE_def

lemma init_card_stages:
  "\<exists>s1. sdcard_init_stages (init_card csd hi lo) = (1, s1) \<and> clocked s1 = 170 \<and>
         reads s1 = 0 \<and> miso s1 = miso (init_card csd hi lo) \<and> timer s1 = timer (bench []) \<and>
         ticks_per_us s1 = 1 \<and> flags s1 = 0 \<and> err s1 = 0"
  by (simp add: init_eval)

lemmas csd_eval = hw_eval crc_eval read_block_command_def read_block_data_def
  read_poll.simps find_token_def find_token_loop.simps Let_def read_data_block_def
  init_card_def bench_def SDCMD_SEND_CSD_def SDE_CRC_ERR_def SDE_READ_ERR_def
  SDF_WRITE_PROTECTED_def SDF_INITIALIZED_def

section \<open>A write-protected card\<close>

text \<open>
  C8. When every stage of \<open>sdcard_init\<close> up to and including the block length has
  passed and the CSD register that was read has a bit of 0x30 set in byte 14, the
  initialisation answers 0, sets the write-protected flag and leaves the initialised flag
  as it was before the call. The initialised flag is set by a call only when that call
  answers 1, all of those stages passed, the CSD read succeeded and the two bits are 0.
\<close>

theorem init_write_protected:
  assumes stages: "sdcard_init_stages s = (1, s1)"
    and csd: "read_data_block SDCMD_SEND_CSD 0 (replicate 16 0) 16 s1 = Some (r, csd_buf, s2)"
    and prot: "csd_buf ! 14 AND 0x30 \<noteq> 0"
  shows "sdcard_init s = Some (0, s2\<lparr>flags := flags s2 OR SDF_WRITE_PROTECTED\<rparr>) \<and>
         (flags s2 OR SDF_WRITE_PROTECTED) AND SDF_WRITE_PROTECTED = SDF_WRITE_PROTECTED \<and>
         (flags s2 OR SDF_WRITE_PROTECTED) AND SDF_INITIALIZED = flags s AND SDF_INITIALIZED \<and>
         (\<forall>t r' t'. sdcard_init t = Some (r', t') \<and> flags t AND SDF_INITIALIZED = 0 \<and>
              flags t' AND SDF_INITIALIZED \<noteq> 0 \<longrightarrow>
              r' = 1 \<and> (\<exists>t1 csd t2. sdcard_init_stages t = (1, t1) \<and>
                read_data_block SDCMD_SEND_CSD 0 (replicate 16 0) 16 t1 = Some (1, csd, t2) \<and>
                csd ! 14 AND 0x30 = 0))"
proof -
  have "sdcard_check_write_protect s1 = Some (0, s2)"
    using csd prot by (simp add: sdcard_check_write_protect_def)
  with stages have a: "sdcard_init s = Some (0, s2\<lparr>flags := flags s2 OR SDF_WRITE_PROTECTED\<rparr>)"
    by (simp add: sdcard_init_def)
  have "flags s2 = flags s1" using csd by (rule read_data_block_fields(1))
  moreover have "flags s1 AND SDF_INITIALIZED = flags s AND SDF_INITIALIZED"
    using sdcard_init_stages_frame [of s] stages by simp
  ultimately have b: "(flags s2 OR SDF_WRITE_PROTECTED) AND SDF_INITIALIZED
                        = flags s AND SDF_INITIALIZED"
    by simp
  from a b show ?thesis
    by (auto dest: sdcard_init_initialized)
qed

theorem init_write_protected_witness:
  "\<exists>s'. sdcard_init (init_card [0, 0, 0, 0, 0, 0, 0, 0, 0, 0, 0, 0, 0, 0, 0x10, 0] 0x03 0x73)
           = Some (0, s') \<and>
         flags s' AND SDF_WRITE_PROTECTED = SDF_WRITE_PROTECTED \<and>
         flags s' AND SDF_INITIALIZED = 0"
proof -
  let ?w = "init_card [0, 0, 0, 0, 0, 0, 0, 0, 0, 0, 0, 0, 0, 0, 0x10, 0] 0x03 0x73"
  from init_card_stages
  obtain s1 where st: "sdcard_init_stages ?w = (1, s1)"
    and f: "clocked s1 = 170" "reads s1 = 0" "miso s1 = miso ?w" "timer s1 = timer (bench [])"
      "ticks_per_us s1 = 1" "flags s1 = 0" "err s1 = 0"
    by blast
  let ?rd = "read_data_block SDCMD_SEND_CSD 0 (replicate 16 0) 16 s1"
  have rd: "?rd = Some (1, [0, 0, 0, 0, 0, 0, 0, 0, 0, 0, 0, 0, 0, 0, 0x10, 0], snd (snd (the ?rd)))"
    by (simp add: csd_eval f)
  have prot: "[0, 0, 0, 0, 0, 0, 0, 0, 0, 0, 0, 0, 0, 0, 0x10, 0 :: u8] ! 14 AND 0x30 \<noteq> 0"
    by simp
  have w0: "flags ?w AND SDF_INITIALIZED = 0" by (simp add: csd_eval)
  from init_write_protected [OF st rd prot] w0 show ?thesis
    by simp
qed

section \<open>A failed read of the CSD register\<close>

text \<open>
  C9. When every stage up to the block length has passed and the read of the 16-byte CSD
  register itself answers 0 (bad response, no start token or CRC mismatch), the
  initialisation answers 0 and sets the write-protected flag, whatever the bytes in the
  buffer are: the outcome is the one a protected card gives. In the run below the bytes
  received have both protect bits 0 and only the CRC trailer is wrong.
\<close>

theorem init_csd_read_failure:
  assumes stages: "sdcard_init_stages s = (1, s1)"
    and csd: "read_data_block SDCMD_SEND_CSD 0 (replicate 16 0) 16 s1 = Some (0, csd_buf, s2)"
  shows "sdcard_init s = Some (0, s2\<lparr>flags := flags s2 OR SDF_WRITE_PROTECTED\<rparr>) \<and>
         (flags s2 OR SDF_WRITE_PROTECTED) AND SDF_WRITE_PROTECTED = SDF_WRITE_PROTECTED"
proof -
  have "sdcard_check_write_protect s1 = Some (0, s2)"
    using csd by (simp add: sdcard_check_write_protect_def)
  with stages show ?thesis by (simp add: sdcard_init_def)
qed

theorem init_csd_read_failure_witness:
  "\<exists>s'. sdcard_init (init_card [0, 0, 0, 0, 0, 0, 0, 0, 0, 0, 0, 0, 0, 0, 0, 0] 0 1)
           = Some (0, s') \<and>
         flags s' AND SDF_WRITE_PROTECTED = SDF_WRITE_PROTECTED"
proof -
  let ?w = "init_card [0, 0, 0, 0, 0, 0, 0, 0, 0, 0, 0, 0, 0, 0, 0, 0] 0 1"
  from init_card_stages
  obtain s1 where st: "sdcard_init_stages ?w = (1, s1)"
    and f: "clocked s1 = 170" "reads s1 = 0" "miso s1 = miso ?w" "timer s1 = timer (bench [])"
      "ticks_per_us s1 = 1" "flags s1 = 0" "err s1 = 0"
    by blast
  let ?rd = "read_data_block SDCMD_SEND_CSD 0 (replicate 16 0) 16 s1"
  have rd: "?rd = Some (0, [0, 0, 0, 0, 0, 0, 0, 0, 0, 0, 0, 0, 0, 0, 0, 0], snd (snd (the ?rd)))"
    by (simp add: csd_eval f)
  from init_csd_read_failure [OF st rd] show ?thesis
    by simp
qed

section \<open>Deinitialisation and access to an initialised driver\<close>

lemma bit_deinit: "bit SDF_DEINIT n \<longleftrightarrow> n = 3"
proof -
  have e: "SDF_DEINIT = 2 ^ 3" by (simp add: SDF_DEINIT_def)
  show ?thesis
    unfolding e by (simp only: bit_exp_iff) (auto simp: possible_bit_def)
qed

lemma or_deinit_idem:
  assumes "f AND SDF_DEINIT \<noteq> 0"
  shows "f OR SDF_DEINIT = f"
proof -
  from assms have "\<exists>n. bit (f AND SDF_DEINIT) n"
    by (auto simp: bit_eq_iff [of "f AND SDF_DEINIT" 0])
  then have f3: "bit f 3" by (auto simp: bit_and_iff bit_deinit)
  show ?thesis
    by (rule bit_eqI) (auto simp: bit_or_iff bit_deinit f3)
qed

lemma sdcard_deinit_fields:
  "flags (sdcard_deinit s) = flags s OR SDF_DEINIT"
  "err (sdcard_deinit s) = err s"
  by (simp_all add: sdcard_deinit_def Let_def case_prod_beta or_deinit_idem)

lemma initialized_or_deinit [simp]:
  "(f OR SDF_DEINIT) AND SDF_INITIALIZED = f AND SDF_INITIALIZED"
  "(f OR SDF_DEINIT) AND SDF_HIGH_CAPACITY = f AND SDF_HIGH_CAPACITY"
  "(f OR SDF_DEINIT) AND SDF_WRITE_PROTECTED = f AND SDF_WRITE_PROTECTED"
proof -
  have "SDF_DEINIT AND SDF_INITIALIZED = 0" "SDF_DEINIT AND SDF_HIGH_CAPACITY = 0"
    "SDF_DEINIT AND SDF_WRITE_PROTECTED = 0"
    by (simp_all add: SDF_DEINIT_def SDF_INITIALIZED_def SDF_HIGH_CAPACITY_def
        SDF_WRITE_PROTECTED_def)
  then show "(f OR SDF_DEINIT) AND SDF_INITIALIZED = f AND SDF_INITIALIZED"
    "(f OR SDF_DEINIT) AND SDF_HIGH_CAPACITY = f AND SDF_HIGH_CAPACITY"
    "(f OR SDF_DEINIT) AND SDF_WRITE_PROTECTED = f AND SDF_WRITE_PROTECTED"
    by (simp_all add: bit.conj_disj_distrib2)
qed

lemma initialized_access:
  assumes "flags s AND SDF_INITIALIZED \<noteq> 0"
  shows "sdcard_read_sector buf sector s = Some (r, d, s') \<Longrightarrow>
           (r = 0 \<or> r = 1) \<and> prefix (trace s @ [SpiPrepare, CsWrite False]) (trace s')"
    and "sdcard_write_sector buf sector s = Some (r, s') \<Longrightarrow>
           (r = 0 \<or> r = 1) \<and> prefix (trace s @ [SpiPrepare, CsWrite False]) (trace s')"
proof -
  assume rd: "sdcard_read_sector buf sector s = Some (r, d, s')"
  then obtain a where
    "read_data_block SDCMD_READ_SINGLE_BLOCK a buf SD_SECTOR_SIZE s = Some (r, d, s')"
    using assms by (simp add: sdcard_read_sector_def Let_def)
  from read_data_block_trace [OF this] read_block_command_trace [of s SDCMD_READ_SINGLE_BLOCK a]
  have "prefix (trace s @ [SpiPrepare, CsWrite False,
                  SpiTransfer False (command_frame SDCMD_READ_SINGLE_BLOCK a)]) (trace s')"
    by (rule prefix_order.trans [rotated])
  then have "prefix (trace s @ [SpiPrepare, CsWrite False]) (trace s')"
    by (auto simp: prefix_def)
  with read_result_bool [OF assms rd]
  show "(r = 0 \<or> r = 1) \<and> prefix (trace s @ [SpiPrepare, CsWrite False]) (trace s')"
    by simp
next
  assume wr: "sdcard_write_sector buf sector s = Some (r, s')"
  from write_sector_trace [OF assms wr]
  have "prefix (trace s @ [SpiPrepare, CsWrite False]) (trace s')"
    by (auto simp: write_sector_command_trace prefix_def)
  with write_result_bool [OF assms wr]
  show "(r = 0 \<or> r = 1) \<and> prefix (trace s @ [SpiPrepare, CsWrite False]) (trace s')"
    by simp
qed

lemma sdcard_init_success_flag:
  assumes "sdcard_init s0 = Some (1, s)"
  shows "flags s AND SDF_INITIALIZED \<noteq> 0"
proof -
  have nz: "SDF_INITIALIZED \<noteq> 0" by (simp add: SDF_INITIALIZED_def)
  from assms have "flags s AND SDF_INITIALIZED = SDF_INITIALIZED"
    by (auto simp: sdcard_init_def Let_def case_prod_beta split: option.splits if_splits)
  with nz show ?thesis by simp
qed

lemma init_card_ok:
  "\<exists>s. sdcard_init (init_card [0, 0, 0, 0, 0, 0, 0, 0, 0, 0, 0, 0, 0, 0, 0, 0] 0 0) = Some (1, s) \<and>
       flags s = SDF_INITIALIZED \<and> err s = 0 \<and> clocked s = 197 \<and> reads s = 4 \<and>
       miso s = miso (init_card [0, 0, 0, 0, 0, 0, 0, 0, 0, 0, 0, 0, 0, 0, 0, 0] 0 0) \<and>
       timer s = timer (bench []) \<and> ticks_per_us s = 1"
proof -
  let ?w = "init_card [0, 0, 0, 0, 0, 0, 0, 0, 0, 0, 0, 0, 0, 0, 0, 0] 0 0"
  from init_card_stages
  obtain s1 where st: "sdcard_init_stages ?w = (1, s1)"
    and f: "clocked s1 = 170" "reads s1 = 0" "miso s1 = miso ?w" "timer s1 = timer (bench [])"
      "ticks_per_us s1 = 1" "flags s1 = 0" "err s1 = 0"
    by blast
  have "\<exists>s2. sdcard_check_write_protect s1 = Some (1, s2) \<and> flags s2 = 0 \<and> err s2 = 0 \<and>
          clocked s2 = 197 \<and> reads s2 = 4 \<and> miso s2 = miso ?w \<and>
          timer s2 = timer (bench []) \<and> ticks_per_us s2 = 1"
    by (simp add: sdcard_check_write_protect_def csd_eval f)
  then obtain s2 where cw: "sdcard_check_write_protect s1 = Some (1, s2)"
    and g: "flags s2 = 0" "err s2 = 0" "clocked s2 = 197" "reads s2 = 4" "miso s2 = miso ?w"
      "timer s2 = timer (bench [])" "ticks_per_us s2 = 1"
    by blast
  have "sdcard_init ?w
          = Some (1, spi_set_rate SPI_XFER_RATE (s2\<lparr>flags := flags s2 OR SDF_INITIALIZED\<rparr>))"
    by (simp add: sdcard_init_def st cw)
  then show ?thesis
    by (simp add: spi_set_rate_def g)
qed

section \<open>What deinitialisation leaves in place\<close>

text \<open>
  C10. \<open>sdcard_deinit\<close> changes no flag other than the deinitialised flag, which it
  sets: the initialised, high-capacity and write-protected flags and the error set are
  as before. So after an initialisation that answered 1, followed by a deinitialisation,
  the initialised flag is still set; a sector read or write that returns then answers 0
  or 1, never the 0xFF of the not-ready guard, and it has prepared the bus and selected
  the card.
\<close>

theorem deinit_frame:
  "flags (sdcard_deinit s) = flags s OR SDF_DEINIT \<and>
   flags (sdcard_deinit s) AND SDF_INITIALIZED = flags s AND SDF_INITIALIZED \<and>
   flags (sdcard_deinit s) AND SDF_HIGH_CAPACITY = flags s AND SDF_HIGH_CAPACITY \<and>
   flags (sdcard_deinit s) AND SDF_WRITE_PROTECTED = flags s AND SDF_WRITE_PROTECTED \<and>
   err (sdcard_deinit s) = err s \<and>
   (\<forall>s0. sdcard_init s0 = Some (1, s) \<longrightarrow>
      flags (sdcard_deinit s) AND SDF_INITIALIZED \<noteq> 0 \<and>
      (\<forall>buf sector r d s'.
         sdcard_read_sector buf sector (sdcard_deinit s) = Some (r, d, s') \<longrightarrow>
         (r = 0 \<or> r = 1) \<and>
         prefix (trace (sdcard_deinit s) @ [SpiPrepare, CsWrite False]) (trace s')) \<and>
      (\<forall>buf sector r s'.
         sdcard_write_sector buf sector (sdcard_deinit s) = Some (r, s') \<longrightarrow>
         (r = 0 \<or> r = 1) \<and>
         prefix (trace (sdcard_deinit s) @ [SpiPrepare, CsWrite False]) (trace s')))"
proof -
  have i: "flags (sdcard_deinit s) AND SDF_INITIALIZED \<noteq> 0"
    if "sdcard_init s0 = Some (1, s)" for s0
    using sdcard_init_success_flag [OF that] by (simp add: sdcard_deinit_fields)
  show ?thesis
    by (intro conjI allI impI i initialized_access [OF i])
       (simp_all add: sdcard_deinit_fields)
qed

theorem deinit_frame_witness:
  "\<exists>s. sdcard_init (init_card [0, 0, 0, 0, 0, 0, 0, 0, 0, 0, 0, 0, 0, 0, 0, 0] 0 0) = Some (1, s) \<and>
       flags (sdcard_deinit s) = SDF_INITIALIZED OR SDF_DEINIT \<and>
       err (sdcard_deinit s) = 0 \<and>
       sdcard_write_sector (replicate 512 0) 0 (sdcard_deinit s) \<noteq> Some (0xFF, sdcard_deinit s) \<and>
       sdcard_read_sector (replicate 512 0) 0 (sdcard_deinit s)
         \<noteq> Some (0xFF, replicate 512 0, sdcard_deinit s)"
proof -
  let ?w = "init_card [0, 0, 0, 0, 0, 0, 0, 0, 0, 0, 0, 0, 0, 0, 0, 0] 0 0"
  from init_card_ok obtain s where i: "sdcard_init ?w = Some (1, s)"
    and f: "flags s = SDF_INITIALIZED" "err s = 0"
    by blast
  from deinit_frame [of s] i have
    a: "flags (sdcard_deinit s) = flags s OR SDF_DEINIT" and b: "err (sdcard_deinit s) = err s"
    and w: "\<And>buf sector r s'. sdcard_write_sector buf sector (sdcard_deinit s) = Some (r, s')
              \<Longrightarrow> r = 0 \<or> r = 1"
    and r: "\<And>buf sector r d s'. sdcard_read_sector buf sector (sdcard_deinit s) = Some (r, d, s')
              \<Longrightarrow> r = 0 \<or> r = 1"
    by blast+
  have nw: "sdcard_write_sector (replicate 512 0) 0 (sdcard_deinit s) \<noteq> Some (0xFF, sdcard_deinit s)"
  proof
    assume "sdcard_write_sector (replicate 512 0) 0 (sdcard_deinit s) = Some (0xFF, sdcard_deinit s)"
    from w [OF this] show False by simp
  qed
  have nr: "sdcard_read_sector (replicate 512 0) 0 (sdcard_deinit s)
              \<noteq> Some (0xFF, replicate 512 0, sdcard_deinit s)"
  proof
    assume "sdcard_read_sector (replicate 512 0) 0 (sdcard_deinit s)
              = Some (0xFF, replicate 512 0, sdcard_deinit s)"
    from r [OF this] show False by simp
  qed
  from i a b f nw nr show ?thesis by auto
qed

section \<open>The error set under each operation\<close>






section \<open>The accumulated error set\<close>




section \<open>Checksum of the go-idle frame\<close>

text \<open>
  C7. The CRC7 of the code (MSB first, polynomial 0x12, initial value 0, lowest bit forced
  to 1) over the five bytes \<open>[0x40, 0, 0, 0, 0]\<close> of the go-idle frame is 0x95, and that
  is the sixth byte \<open>populate_buffer\<close> puts into the frame of go-idle with argument 0.
\<close>

theorem crc7_go_idle:
  "calc_crc7 [0x40, 0, 0, 0, 0] 5 = 0x95 \<and>
   populate_buffer SDCMD_GO_IDLE_STATE 0 [0, 0, 0, 0, 0, 0, 0, 0]
     = [0x40, 0, 0, 0, 0, 0x95, 0, 0]"
  by code_simp

end
